theory Spec2Isabelle
  imports Complex_Main "HOL-Library.Log_Nat" "HOL-Library.Sublist"
    "HOL-Library.Char_ord" "HOL-Library.List_Lexorder"
begin

section \<open>Python values\<close>

text \<open>
  The valuation pipeline of \<^verbatim>\<open>predict.py\<close> (console) and \<^verbatim>\<open>app.py\<close> (web form).
  Python's \<^verbatim>\<open>int\<close> is \<^typ>\<open>int\<close>. A Python \<^verbatim>\<open>float\<close> is an IEEE binary64 number; a finite
  one is modelled by the real number it denotes, and every arithmetic operation rounds its
  exact result to the nearest binary64 value, ties to even (\<open>float_round\<close>). Strings are
  character lists over ASCII: case conversion acts on the letters A-Z and a-z only.
\<close>

datatype error = ValueError | OverflowError | ZeroDivisionError | AttributeError

datatype pyfloat = Finite real | PosInf | NegInf | NaN

subsection \<open>Rounding to binary64\<close>

definition round_half_even :: "real \<Rightarrow> int" where
  "round_half_even x =
     (let f = \<lfloor>x\<rfloor>; d = x - of_int f
      in if d < 1/2 then f else if 1/2 < d then f + 1 else if even f then f else f + 1)"

text \<open>For \<open>x > 0\<close>, \<open>binade x\<close> is the exponent \<open>e\<close> with \<open>2^e \<le> x < 2^(e+1)\<close>.\<close>

definition binade :: "real \<Rightarrow> int" where
  "binade x = (if 1 \<le> x then bitlen \<lfloor>x\<rfloor> - 1 else - bitlen (\<lceil>1 / x\<rceil> - 1))"

text \<open>
  The nearest number with a 53-bit significand. The exponent range is not bounded here:
  overflow is detected by \<open>to_pyfloat\<close>, and no operation of the program produces a nonzero
  result small enough to be subnormal.
\<close>

definition float_round :: "real \<Rightarrow> real" where
  "float_round x =
     (if x = 0 then 0
      else let u = 2 powi (binade \<bar>x\<bar> - 52)
           in sgn x * of_int (round_half_even (\<bar>x\<bar> / u)) * u)"

definition to_pyfloat :: "real \<Rightarrow> pyfloat" where
  "to_pyfloat x =
     (let r = float_round x
      in if 2 ^ 1024 \<le> r then PosInf else if r \<le> - (2 ^ 1024) then NegInf else Finite r)"

text \<open>
  A decimal literal of the source denotes the nearest binary64 value: \<open>float_lit n d\<close> is the
  value of the literal that stands for the fraction \<open>n / d\<close>, so \<^verbatim>\<open>1.36\<close> is
  \<open>float_lit 136 100\<close> and \<^verbatim>\<open>1.6\<close> is \<open>float_lit 16 10\<close>.
\<close>

definition float_lit :: "int \<Rightarrow> int \<Rightarrow> real" where
  "float_lit n d = float_round (of_int n / of_int d)"

subsection \<open>Strings\<close>

definition py_lower_char :: "char \<Rightarrow> char" where
  "py_lower_char c =
     (let n = (of_char c :: nat) in if 65 \<le> n \<and> n \<le> 90 then char_of (n + 32) else c)"

definition py_lower :: "string \<Rightarrow> string" where
  "py_lower s = map py_lower_char s"

fun py_startswith :: "string \<Rightarrow> string \<Rightarrow> bool" where
  "py_startswith s [] = True"
| "py_startswith [] (p # ps) = False"
| "py_startswith (c # s) (p # ps) = (c = p \<and> py_startswith s ps)"

text \<open>\<^verbatim>\<open>sub in s\<close>: \<open>sub\<close> occurs in \<open>s\<close> as a contiguous substring.\<close>

fun py_in :: "string \<Rightarrow> string \<Rightarrow> bool" where
  "py_in sub [] = (sub = [])"
| "py_in sub (c # s) = (py_startswith (c # s) sub \<or> py_in sub s)"

section \<open>Power estimator\<close>

text \<open>\<^verbatim>\<open>estimate_kw_from_engine\<close> of \<^verbatim>\<open>predict.py\<close>.\<close>

definition estimate_kw_from_engine :: "real \<Rightarrow> string \<Rightarrow> int" where
  "estimate_kw_from_engine engine_size fuel_type =
     (if py_in ''diesel'' (py_lower fuel_type) then
        (if engine_size \<le> float_lit 15 10 then 75
         else if engine_size \<le> float_lit 20 10 then 110
         else 140)
      else
        (if engine_size \<le> float_lit 12 10 then 60
         else if engine_size \<le> float_lit 16 10 then 92
         else if engine_size \<le> float_lit 20 10 then 132
         else 184))"

text \<open>\<^verbatim>\<open>estimate_kw_from_engine\<close> of \<^verbatim>\<open>app.py\<close>, a second copy of the function.\<close>

definition app_estimate_kw_from_engine :: "real \<Rightarrow> string \<Rightarrow> int" where
  "app_estimate_kw_from_engine engine_size fuel_type =
     (if py_in ''diesel'' (py_lower fuel_type) then
        (if engine_size \<le> float_lit 15 10 then 75
         else if engine_size \<le> float_lit 20 10 then 110
         else 140)
      else
        (if engine_size \<le> float_lit 12 10 then 60
         else if engine_size \<le> float_lit 16 10 then 92
         else if engine_size \<le> float_lit 20 10 then 132
         else 184))"

section \<open>Power logic\<close>

text \<open>
  \<^verbatim>\<open>int(x)\<close> truncates a float toward zero and raises on an infinity. In \<^verbatim>\<open>kw * 1.36\<close> and
  \<^verbatim>\<open>hp / 1.36\<close> the integer operand is first converted to a float, which raises when it is
  too large; the product or quotient is then rounded to binary64.
\<close>

definition py_int :: "pyfloat \<Rightarrow> error + int" where
  "py_int x =
     (case x of
        Finite r \<Rightarrow> Inr (if 0 \<le> r then \<lfloor>r\<rfloor> else \<lceil>r\<rceil>)
      | PosInf \<Rightarrow> Inl OverflowError
      | NegInf \<Rightarrow> Inl OverflowError
      | NaN \<Rightarrow> Inl ValueError)"

definition float_of_int :: "int \<Rightarrow> error + real" where
  "float_of_int n =
     (case to_pyfloat (of_int n) of Finite r \<Rightarrow> Inr r | PosInf \<Rightarrow> Inl OverflowError
      | NegInf \<Rightarrow> Inl OverflowError | NaN \<Rightarrow> Inl OverflowError)"

definition int_mul_float :: "int \<Rightarrow> real \<Rightarrow> error + pyfloat" where
  "int_mul_float n f =
     (case float_of_int n of Inl e \<Rightarrow> Inl e | Inr a \<Rightarrow> Inr (to_pyfloat (a * f)))"

definition int_div_float :: "int \<Rightarrow> real \<Rightarrow> error + pyfloat" where
  "int_div_float n f =
     (case float_of_int n of
        Inl e \<Rightarrow> Inl e
      | Inr a \<Rightarrow> if f = 0 then Inl ZeroDivisionError else Inr (to_pyfloat (a / f)))"

text \<open>\<^verbatim>\<open>hp = int(kw * 1.36)\<close> and \<^verbatim>\<open>kw = int(hp / 1.36)\<close>.\<close>

definition hp_of_kw :: "int \<Rightarrow> error + int" where
  "hp_of_kw kw =
     (case int_mul_float kw (float_lit 136 100) of Inl e \<Rightarrow> Inl e | Inr x \<Rightarrow> py_int x)"

definition kw_of_hp :: "int \<Rightarrow> error + int" where
  "kw_of_hp hp =
     (case int_div_float hp (float_lit 136 100) of Inl e \<Rightarrow> Inl e | Inr x \<Rightarrow> py_int x)"

text \<open>
  The answer to a numeric prompt of the console program: left empty, text that \<^verbatim>\<open>int()\<close> or
  \<^verbatim>\<open>float()\<close> rejects, or a number. Step 4 of \<^verbatim>\<open>get_prediction\<close> follows.
\<close>

datatype 'a prompt = Blank | Unparsable | Parsed 'a

definition power_logic :: "int prompt \<Rightarrow> int prompt \<Rightarrow> real \<Rightarrow> string \<Rightarrow> error + int \<times> int" where
  "power_logic kw_input hp_input engine fuel =
     (case kw_input of
        Parsed kw \<Rightarrow> (case hp_of_kw kw of Inl e \<Rightarrow> Inl e | Inr hp \<Rightarrow> Inr (kw, hp))
      | Unparsable \<Rightarrow> Inl ValueError
      | Blank \<Rightarrow>
          (case hp_input of
             Parsed hp \<Rightarrow> (case kw_of_hp hp of Inl e \<Rightarrow> Inl e | Inr kw \<Rightarrow> Inr (kw, hp))
           | Unparsable \<Rightarrow> Inl ValueError
           | Blank \<Rightarrow>
               (let kw = estimate_kw_from_engine engine fuel
                in case hp_of_kw kw of Inl e \<Rightarrow> Inl e | Inr hp \<Rightarrow> Inr (kw, hp))))"

text \<open>The power logic of the web form, whose inputs are numbers, 0 when not filled in.\<close>

definition app_power_logic :: "int \<Rightarrow> int \<Rightarrow> real \<Rightarrow> string \<Rightarrow> error + int \<times> int" where
  "app_power_logic kw_input hp_input engine fuel =
     (if kw_input > 0 then
        (case hp_of_kw kw_input of Inl e \<Rightarrow> Inl e | Inr hp \<Rightarrow> Inr (kw_input, hp))
      else if hp_input > 0 then
        (case kw_of_hp hp_input of Inl e \<Rightarrow> Inl e | Inr kw \<Rightarrow> Inr (kw, hp_input))
      else
        (let kw = app_estimate_kw_from_engine engine fuel
         in case hp_of_kw kw of Inl e \<Rightarrow> Inl e | Inr hp \<Rightarrow> Inr (kw, hp)))"

section \<open>More string operations\<close>

definition py_upper_char :: "char \<Rightarrow> char" where
  "py_upper_char c =
     (let n = (of_char c :: nat) in if 97 \<le> n \<and> n \<le> 122 then char_of (n - 32) else c)"

definition py_iscased :: "char \<Rightarrow> bool" where
  "py_iscased c =
     (let n = (of_char c :: nat) in (65 \<le> n \<and> n \<le> 90) \<or> (97 \<le> n \<and> n \<le> 122))"

text \<open>The ASCII characters that \<^verbatim>\<open>str.strip()\<close> removes: tab to carriage return, the four
  separators 28 to 31, and the space.\<close>

definition py_isspace :: "char \<Rightarrow> bool" where
  "py_isspace c =
     (let n = (of_char c :: nat) in (9 \<le> n \<and> n \<le> 13) \<or> (28 \<le> n \<and> n \<le> 32))"

definition py_strip :: "string \<Rightarrow> string" where
  "py_strip s = rev (dropWhile py_isspace (rev (dropWhile py_isspace s)))"

text \<open>
  \<^verbatim>\<open>s.replace(old, new)\<close>: the occurrences of \<open>old\<close> are replaced from left to right without
  overlap; an empty \<open>old\<close> matches before every character and at the end.
\<close>

function py_replace :: "string \<Rightarrow> string \<Rightarrow> string \<Rightarrow> string" where
  "py_replace [] old new = (if old = [] then new else [])"
| "py_replace (c # s) old new =
     (if old = [] then new @ c # py_replace s old new
      else if py_startswith (c # s) old then new @ py_replace (drop (length old) (c # s)) old new
      else c # py_replace s old new)"
  by pat_completeness auto
termination
  by (relation "measure (\<lambda>(s, old, new). length s)") auto

text \<open>
  \<^verbatim>\<open>s.title()\<close>: a character that follows a cased character is lower-cased, any other
  character is upper-cased.
\<close>

fun title_from :: "bool \<Rightarrow> string \<Rightarrow> string" where
  "title_from previous_is_cased [] = []"
| "title_from previous_is_cased (c # s) =
     (if previous_is_cased then py_lower_char c else py_upper_char c) # title_from (py_iscased c) s"

definition py_title :: "string \<Rightarrow> string" where
  "py_title s = title_from False s"

section \<open>Encoding table and model search\<close>

text \<open>
  \<^verbatim>\<open>mappings.json\<close>: two dictionaries from names to codes, each an association list in the
  order of the file, with distinct keys. \<^verbatim>\<open>d.get(k)\<close> is \<open>map_of d k\<close>, \<^verbatim>\<open>None\<close> when the key
  is absent. A file that is missing gives \<^verbatim>\<open>mappings = None\<close>.
\<close>

record mappings =
  brands :: "(string \<times> real) list"
  models :: "(string \<times> real) list"

text \<open>\<^verbatim>\<open>sorted([m for m in mappings['models'].keys() if brand_key in m])\<close>, in both programs.\<close>

definition available_models :: "mappings \<Rightarrow> string \<Rightarrow> string list" where
  "available_models mp brand_key = sort (filter (py_in brand_key) (map fst (models mp)))"

text \<open>\<^verbatim>\<open>m.replace(brand_key, "").strip().title()\<close>, in both programs.\<close>

definition display_name :: "string \<Rightarrow> string \<Rightarrow> string" where
  "display_name m brand_key = py_title (py_strip (py_replace m brand_key []))"

section \<open>Feature vectors and price\<close>

text \<open>
  Step 6 of \<^verbatim>\<open>get_prediction\<close>. The array holds binary64 numbers; the integers of a
  vehicle are far below \<open>2^53\<close> and are stored exactly.
\<close>

definition tech_vector :: "int \<Rightarrow> int \<Rightarrow> int \<Rightarrow> int \<Rightarrow> real \<Rightarrow> string \<Rightarrow> string \<Rightarrow> real list" where
  "tech_vector year kw hp km engine transmission fuel =
     (let is_auto = (if transmission = ''automatic'' then 1 else 0);
          is_manual = (if transmission = ''manual'' then 1 else 0);
          is_diesel = (if fuel = ''diesel'' then 1 else 0);
          is_petrol = (if fuel = ''petrol'' then 1 else 0);
          is_hybrid = (if fuel = ''hybrid'' then 1 else 0);
          is_cng = (if fuel = ''cng'' then 1 else 0);
          is_lpg = (if fuel = ''lpg'' then 1 else 0);
          is_electric = (if fuel = ''electric'' then 1 else 0)
      in [of_int year, of_int kw, of_int hp, of_int km, engine, is_auto, is_manual,
          is_cng, is_diesel, is_electric, is_hybrid, is_lpg, is_petrol])"

text \<open>The same vector in \<^verbatim>\<open>app.py\<close>, with the fuel flags held in the dictionary \<^verbatim>\<open>f_dict\<close>.\<close>

definition f_dict :: "string \<Rightarrow> string \<Rightarrow> real" where
  "f_dict fuel f = (if fuel = f then 1 else 0)"

definition app_tech_vector :: "int \<Rightarrow> int \<Rightarrow> int \<Rightarrow> int \<Rightarrow> real \<Rightarrow> string \<Rightarrow> string \<Rightarrow> real list" where
  "app_tech_vector year kw hp km_input_val engine transmission fuel =
     (let is_auto = (if transmission = ''automatic'' then 1 else 0);
          is_manual = (if transmission = ''manual'' then 1 else 0)
      in [of_int year, of_int kw, of_int hp, of_int km_input_val, engine, is_auto, is_manual,
          f_dict fuel ''cng'', f_dict fuel ''diesel'', f_dict fuel ''electric'',
          f_dict fuel ''hybrid'', f_dict fuel ''lpg'', f_dict fuel ''petrol''])"

text \<open>
  Step 7. The regressors are opaque functions from a vector to a binary64 number, taken to
  be finite. \<^verbatim>\<open>np.expm1\<close> is a function of the numerical library: it is a parameter
  \<open>np_expm1\<close> of the model, a function from floats to floats that approximates \<open>exp x - 1\<close>.
  The sum and the product of \<^verbatim>\<open>np.expm1(log_base + log_brand) * cond\<close> are binary64
  operations: each rounds its exact result, an overflow gives an infinity, and an infinity
  times zero is not a number. Signed zeros are not told apart.
\<close>

definition py_mul :: "pyfloat \<Rightarrow> real \<Rightarrow> pyfloat" where
  "py_mul x c =
     (case x of
        Finite v \<Rightarrow> to_pyfloat (v * c)
      | PosInf \<Rightarrow> (if 0 < c then PosInf else if c < 0 then NegInf else NaN)
      | NegInf \<Rightarrow> (if 0 < c then NegInf else if c < 0 then PosInf else NaN)
      | NaN \<Rightarrow> NaN)"

definition price :: "(pyfloat \<Rightarrow> pyfloat) \<Rightarrow> real \<Rightarrow> real \<Rightarrow> real \<Rightarrow> pyfloat" where
  "price np_expm1 log_base log_brand cond =
     py_mul (np_expm1 (to_pyfloat (log_base + log_brand))) cond"

definition final_price :: "(pyfloat \<Rightarrow> pyfloat) \<Rightarrow> real \<Rightarrow> real \<Rightarrow> real \<Rightarrow> pyfloat" where
  "final_price np_expm1 log_base log_brand cond_input_val =
     py_mul (np_expm1 (to_pyfloat (log_base + log_brand))) cond_input_val"

text \<open>The order of floats: an infinity at each end, and not-a-number compared with nothing.\<close>

definition pyfloat_le :: "pyfloat \<Rightarrow> pyfloat \<Rightarrow> bool" where
  "pyfloat_le x y =
     (case (x, y) of
        (NaN, _) \<Rightarrow> False
      | (_, NaN) \<Rightarrow> False
      | (NegInf, _) \<Rightarrow> True
      | (_, PosInf) \<Rightarrow> True
      | (Finite a, Finite b) \<Rightarrow> a \<le> b
      | (_, _) \<Rightarrow> False)"

section \<open>The console program\<close>

text \<open>
  The answers to the prompts of \<^verbatim>\<open>get_prediction\<close>, in the order they are asked. A numeric
  answer is what \<^verbatim>\<open>int()\<close> or \<^verbatim>\<open>float()\<close> makes of the line; the two manual codes are asked
  only when the table does not resolve the name. Floats typed in are finite.
\<close>

record cli_input =
  in_brand :: string
  in_model :: string
  in_year :: "int prompt"
  in_engine :: "real prompt"
  in_fuel :: string
  in_kw :: "int prompt"
  in_hp :: "int prompt"
  in_km :: "int prompt"
  in_transmission :: string
  in_cond :: "real prompt"
  in_manual_brand :: "real prompt"
  in_manual_model :: "real prompt"

record prediction =
  out_model :: string
  out_kw :: int
  out_hp :: int
  out_tech_vector :: "real list"
  out_brand_vector :: "real list"
  out_price :: pyfloat

text \<open>\<^verbatim>\<open>int(input(...))\<close> and \<^verbatim>\<open>float(input(...))\<close>: an empty or malformed line raises.\<close>

definition required :: "'a prompt \<Rightarrow> error + 'a" where
  "required p = (case p of Parsed v \<Rightarrow> Inr v | Blank \<Rightarrow> Inl ValueError | Unparsable \<Rightarrow> Inl ValueError)"

definition py_isdigit :: "string \<Rightarrow> bool" where
  "py_isdigit s = (s \<noteq> [] \<and> list_all (\<lambda>c. 48 \<le> (of_char c :: nat) \<and> (of_char c :: nat) \<le> 57) s)"

definition int_of_digits :: "string \<Rightarrow> int" where
  "int_of_digits s = foldl (\<lambda>a c. 10 * a + (int (of_char c) - 48)) 0 s"

text \<open>Step 2: the model is chosen by its number in the list, or typed by name.\<close>

definition select_model :: "mappings option \<Rightarrow> string \<Rightarrow> string list \<Rightarrow> string \<Rightarrow> string" where
  "select_model mappings brand_key available line =
     (let model_choice = py_lower (py_strip line)
      in if available \<noteq> [] then
           (if py_isdigit model_choice \<and> 1 \<le> int_of_digits model_choice
                 \<and> int_of_digits model_choice \<le> int (length available)
            then available ! nat (int_of_digits model_choice - 1)
            else (case mappings of
                    None \<Rightarrow> model_choice
                  | Some mp \<Rightarrow>
                      if brand_key @ '' '' @ model_choice \<in> set (map fst (models mp))
                      then brand_key @ '' '' @ model_choice
                      else if model_choice \<in> set (map fst (models mp)) then model_choice
                      else model_choice))
         else model_choice)"

text \<open>Step 5: the table lookup, and the manual code asked for a name the table lacks.\<close>

definition encoding_lookup :: "mappings option \<Rightarrow> string \<Rightarrow> string \<Rightarrow> real option \<times> real option" where
  "encoding_lookup mappings brand_key full_model_name =
     (case mappings of
        None \<Rightarrow> (None, None)
      | Some mp \<Rightarrow> (map_of (brands mp) brand_key, map_of (models mp) full_model_name))"

definition manual_override :: "real option \<Rightarrow> real prompt \<Rightarrow> error + real" where
  "manual_override enc manual = (case enc of Some v \<Rightarrow> Inr v | None \<Rightarrow> required manual)"

definition get_prediction ::
    "(pyfloat \<Rightarrow> pyfloat) \<Rightarrow> (real list \<Rightarrow> real) \<Rightarrow> (real list \<Rightarrow> real) \<Rightarrow> mappings option
       \<Rightarrow> cli_input \<Rightarrow> error + prediction" where
  "get_prediction np_expm1 m_tech m_brand mappings inp =
     (let brand = py_strip (in_brand inp);
          brand_key = py_lower brand;
          available = (case mappings of None \<Rightarrow> [] | Some mp \<Rightarrow> available_models mp brand_key);
          full_model_name = select_model mappings brand_key available (in_model inp)
      in case required (in_year inp) of Inl e \<Rightarrow> Inl e | Inr year \<Rightarrow>
         case required (in_engine inp) of Inl e \<Rightarrow> Inl e | Inr engine \<Rightarrow>
         let fuel = py_lower (py_strip (in_fuel inp))
         in case power_logic (in_kw inp) (in_hp inp) engine fuel of Inl e \<Rightarrow> Inl e | Inr (kw, hp) \<Rightarrow>
         case required (in_km inp) of Inl e \<Rightarrow> Inl e | Inr km \<Rightarrow>
         let transmission = py_lower (py_strip (in_transmission inp))
         in case required (in_cond inp) of Inl e \<Rightarrow> Inl e | Inr cond \<Rightarrow>
         let (b_enc, m_enc) = encoding_lookup mappings brand_key full_model_name
         in case manual_override b_enc (in_manual_brand inp) of Inl e \<Rightarrow> Inl e | Inr b \<Rightarrow>
         case manual_override m_enc (in_manual_model inp) of Inl e \<Rightarrow> Inl e | Inr m \<Rightarrow>
         let tv = tech_vector year kw hp km engine transmission fuel;
             bv = [b, m];
             log_base = m_tech tv;
             log_brand = m_brand bv
         in Inr \<lparr>out_model = full_model_name, out_kw = kw, out_hp = hp, out_tech_vector = tv,
                  out_brand_vector = bv, out_price = price np_expm1 log_base log_brand cond\<rparr>)"

text \<open>Names for the brand key, the model name and the two lookups of \<^verbatim>\<open>get_prediction\<close>.\<close>

definition cli_brand_key :: "cli_input \<Rightarrow> string" where
  "cli_brand_key inp = py_lower (py_strip (in_brand inp))"

definition cli_full_model_name :: "mappings option \<Rightarrow> cli_input \<Rightarrow> string" where
  "cli_full_model_name mappings inp =
     select_model mappings (cli_brand_key inp)
       (case mappings of None \<Rightarrow> [] | Some mp \<Rightarrow> available_models mp (cli_brand_key inp))
       (in_model inp)"

definition cli_encoding :: "mappings option \<Rightarrow> cli_input \<Rightarrow> real option \<times> real option" where
  "cli_encoding mappings inp =
     encoding_lookup mappings (cli_brand_key inp) (cli_full_model_name mappings inp)"

section \<open>The web form\<close>






section \<open>The Ford Mondeo scenario\<close>

text \<open>
  A table that knows the brand \<open>ford\<close> and the model \<open>ford mondeo\<close> under two codes, and the
  answers of the scenario: no power is typed in.
\<close>

definition ford_table :: "real \<Rightarrow> real \<Rightarrow> mappings" where
  "ford_table brand_code model_code =
     \<lparr>brands = [(''ford'', brand_code)], models = [(''ford mondeo'', model_code)]\<rparr>"

definition ford_mondeo_input :: cli_input where
  "ford_mondeo_input =
     \<lparr>in_brand = ''Ford'', in_model = ''mondeo'', in_year = Parsed 2020,
      in_engine = Parsed (float_lit 16 10), in_fuel = ''diesel'', in_kw = Blank, in_hp = Blank,
      in_km = Parsed 80000, in_transmission = ''manual'', in_cond = Parsed (float_lit 85 100),
      in_manual_brand = Blank, in_manual_model = Blank\<rparr>"

section \<open>A table with an upper-case brand key\<close>




section \<open>Values of the library function\<close>

text \<open>
  Three values of \<^verbatim>\<open>np.expm1\<close>: at the float 10.0 it returns 22025.465794806718, which is
  \<open>189197310535723 / 2^33\<close>; at 2.5 it returns 11.182493960703473, which is
  \<open>6295184454312123 / 2^49\<close>; at -1.0 it returns -0.6321205588285577, which is
  \<open>- 1423408956596761 / 2^51\<close>. \<open>expm1_sample\<close> stands for the library function at these
  three arguments, the only ones at which it is used; elsewhere it has no entry.
\<close>

definition expm1_sample :: "pyfloat \<Rightarrow> pyfloat" where
  "expm1_sample x =
     (if x = Finite 10 then Finite (189197310535723 / 8589934592)
      else if x = Finite (5/2) then Finite (6295184454312123 / 562949953421312)
      else if x = Finite (- 1) then Finite (- (1423408956596761 / 2251799813685248))
      else NaN)"

section \<open>Properties\<close>

subsection \<open>Substring test\<close>

lemma py_startswith_prefix: "py_startswith s p \<longleftrightarrow> prefix p s"
  by (induction s p rule: py_startswith.induct) auto

lemma py_in_sublist: "py_in sub s \<longleftrightarrow> sublist sub s"
proof (induction s)
  case Nil
  show ?case by simp
next
  case (Cons c s)
  show ?case
    using Cons.IH by (auto simp: py_startswith_prefix sublist_Cons_right)
qed

subsection \<open>Rounding to binary64: bounds\<close>

lemma rhe_ge: "of_int K \<le> x \<Longrightarrow> K \<le> round_half_even x"
proof -
  assume "of_int K \<le> x"
  then have "K \<le> \<lfloor>x\<rfloor>" by (simp add: le_floor_iff)
  then show ?thesis by (simp add: round_half_even_def Let_def)
qed

lemma rhe_le: "x \<le> of_int K \<Longrightarrow> round_half_even x \<le> K"
proof -
  assume a: "x \<le> of_int K"
  then have fk: "\<lfloor>x\<rfloor> \<le> K" by (simp add: floor_le_iff)
  show ?thesis
  proof (cases "\<lfloor>x\<rfloor> = K")
    case True
    then have "x - of_int \<lfloor>x\<rfloor> \<le> 0" using a by simp
    then show ?thesis using True by (simp add: round_half_even_def Let_def)
  next
    case False
    then have "\<lfloor>x\<rfloor> + 1 \<le> K" using fk by simp
    then show ?thesis by (simp add: round_half_even_def Let_def)
  qed
qed

lemma rhe_err: "\<bar>of_int (round_half_even x) - x\<bar> \<le> 1/2"
proof -
  have "of_int \<lfloor>x\<rfloor> \<le> x" "x < of_int \<lfloor>x\<rfloor> + 1" by linarith+
  then show ?thesis by (auto simp: round_half_even_def Let_def)
qed

lemma binade_bounds:
  assumes "0 < x"
  shows "2 powi binade x \<le> x" and "x < 2 powi (binade x + 1)"
proof -
  have "2 powi binade x \<le> x \<and> x < 2 powi (binade x + 1)"
  proof (cases "1 \<le> x")
    case True
    define n where "n = \<lfloor>x\<rfloor>"
    have n: "0 < n" "of_int n \<le> x" "x < of_int n + 1" using True unfolding n_def by linarith+
    have b1: "1 \<le> bitlen n" using n(1) by (simp add: bitlen_alt_def)
    have bb: "2 ^ nat (bitlen n - 1) \<le> n" "n < 2 ^ nat (bitlen n)"
      using bitlen_bounds[OF n(1)] by auto
    have "(2::real) powi (bitlen n - 1) = 2 ^ nat (bitlen n - 1)"
      using b1 by (simp add: power_int_nonneg_exp)
    also have "\<dots> = of_int (2 ^ nat (bitlen n - 1))" by simp
    also have "\<dots> \<le> of_int n" using bb(1) by (simp only: of_int_le_iff)
    finally have lo: "(2::real) powi (bitlen n - 1) \<le> x" using n(2) by simp
    have "n + 1 \<le> 2 ^ nat (bitlen n)" using bb(2) by simp
    then have "real_of_int (n + 1) \<le> of_int (2 ^ nat (bitlen n))" by (simp only: of_int_le_iff)
    then have "x < 2 ^ nat (bitlen n)" using n(3) by simp
    also have "(2::real) ^ nat (bitlen n) = 2 powi (bitlen n)"
      using b1 by (simp add: power_int_nonneg_exp)
    finally have hi: "x < 2 powi (bitlen n)" .
    show ?thesis using lo hi True by (simp add: binade_def n_def)
  next
    case False
    define y where "y = 1 / x"
    define n where "n = \<lceil>y\<rceil> - 1"
    have y1: "1 < y" using False assms by (simp add: y_def)
    have n: "0 < n" "of_int n < y" "y \<le> of_int n + 1"
      using y1 unfolding n_def by linarith+
    have b1: "1 \<le> bitlen n" using n(1) by (simp add: bitlen_alt_def)
    have bb: "2 ^ nat (bitlen n - 1) \<le> n" "n < 2 ^ nat (bitlen n)"
      using bitlen_bounds[OF n(1)] by auto
    have "n + 1 \<le> 2 ^ nat (bitlen n)" using bb(2) by simp
    then have "real_of_int (n + 1) \<le> of_int (2 ^ nat (bitlen n))" by (simp only: of_int_le_iff)
    then have yle: "y \<le> 2 ^ nat (bitlen n)" using n(3) by simp
    have "real_of_int (2 ^ nat (bitlen n - 1)) \<le> of_int n"
      using bb(1) by (simp only: of_int_le_iff)
    then have "(2::real) ^ nat (bitlen n - 1) \<le> of_int n" by simp
    then have ygt: "2 ^ nat (bitlen n - 1) < y" using n(2) by linarith
    have p1: "(2::real) powi (- bitlen n) = 1 / 2 ^ nat (bitlen n)"
      using b1 by (simp add: power_int_def field_simps power_inverse)
    have p2: "(2::real) powi (- bitlen n + 1) = 1 / 2 ^ nat (bitlen n - 1)"
      using b1 by (auto simp: power_int_def field_simps power_inverse nat_diff_distrib)
    have lo: "(2::real) powi (- bitlen n) \<le> x"
      using yle assms unfolding p1 y_def by (simp add: field_simps)
    have hi: "x < (2::real) powi (- bitlen n + 1)"
      using ygt assms unfolding p2 y_def by (simp add: field_simps)
    show ?thesis using lo hi False by (simp add: binade_def n_def y_def)
  qed
  then show "2 powi binade x \<le> x" and "x < 2 powi (binade x + 1)" by auto
qed

lemma float_round_pos:
  assumes "0 < x"
  shows "float_round x = of_int (round_half_even (x / 2 powi (binade x - 52))) * 2 powi (binade x - 52)"
  using assms by (simp add: float_round_def Let_def)

lemma float_round_uminus: "float_round (- x) = - float_round x"
  by (simp add: float_round_def Let_def sgn_if)

lemma float_round_err:
  assumes "0 < x"
  shows "\<bar>float_round x - x\<bar> \<le> x / 2 ^ 53"
proof -
  define u :: real where "u = 2 powi (binade x - 52)"
  define m :: real where "m = of_int (round_half_even (x / u))"
  have u0: "0 < u" by (simp add: u_def)
  have half: "\<bar>m - x / u\<bar> \<le> 1 / 2" unfolding m_def by (rule rhe_err)
  have eq: "m * u - x = (m - x / u) * u" using u0 by (simp add: left_diff_distrib)
  have "\<bar>m * u - x\<bar> = \<bar>m - x / u\<bar> * u"
    unfolding eq using u0 by (simp add: abs_mult)
  also have "\<dots> \<le> 1 / 2 * u"
    using half u0 by (simp only: mult_le_cancel_right_pos)
  finally have e1: "\<bar>m * u - x\<bar> \<le> u / 2" by simp
  have ub: "u = 2 powi binade x / 2 ^ 52"
    by (simp add: u_def power_int_diff)
  have "2 powi binade x \<le> x" using binade_bounds(1)[OF assms] .
  then have "2 powi binade x / 2 ^ 52 \<le> x / 2 ^ 52" by (simp add: divide_right_mono)
  then have "u / 2 \<le> x / 2 ^ 52 / 2" unfolding ub by simp
  also have "x / 2 ^ 52 / 2 = x / 2 ^ 53" by simp
  finally have "\<bar>m * u - x\<bar> \<le> x / 2 ^ 53" using e1 by linarith
  then show ?thesis using float_round_pos[OF assms] by (simp add: u_def m_def)
qed

lemma float_round_ge_int:
  assumes N: "0 < N" "N < 2 ^ 53" and x: "of_int N \<le> x"
  shows "of_int N \<le> float_round x"
proof -
  have "0 < real_of_int N" using N(1) by simp
  then have x0: "0 < x" using x by linarith
  define e where "e = binade x"
  define u :: real where "u = 2 powi (e - 52)"
  have u0: "0 < u" by (simp add: u_def)
  have fr: "float_round x = of_int (round_half_even (x / u)) * u"
    using float_round_pos[OF x0] by (simp add: u_def e_def)
  have lo: "2 powi e \<le> x" using binade_bounds(1)[OF x0] by (simp add: e_def)
  show ?thesis
  proof (cases "e \<le> 52")
    case True
    define K :: int where "K = N * 2 ^ nat (52 - e)"
    have ui: "u = 1 / 2 ^ nat (52 - e)"
      using True by (simp add: u_def power_int_def power_inverse field_simps)
    have "of_int K = of_int N / u" by (simp add: K_def ui)
    also have "\<dots> \<le> x / u" using x u0 by (simp add: divide_right_mono)
    finally have "K \<le> round_half_even (x / u)" by (rule rhe_ge)
    then have "real_of_int K \<le> of_int (round_half_even (x / u))" by (simp only: of_int_le_iff)
    then have "of_int K * u \<le> of_int (round_half_even (x / u)) * u"
      using u0 by (simp only: mult_le_cancel_right_pos)
    moreover have "of_int K * u = of_int N" by (simp add: K_def ui)
    ultimately show ?thesis using fr by simp
  next
    case False
    then have e53: "53 \<le> e" by simp
    have "(2::real) ^ 52 = of_int (2 ^ 52)" by simp
    also have "\<dots> = 2 powi e / u" by (simp add: u_def power_int_diff)
    also have "\<dots> \<le> x / u" using lo u0 by (simp add: divide_right_mono)
    finally have "(2::int) ^ 52 \<le> round_half_even (x / u)" by (intro rhe_ge) simp
    then have "real_of_int (2 ^ 52) \<le> of_int (round_half_even (x / u))" by (simp only: of_int_le_iff)
    then have "of_int (2 ^ 52) * u \<le> of_int (round_half_even (x / u)) * u"
      using u0 by (simp only: mult_le_cancel_right_pos)
    moreover have "real_of_int (2 ^ 52) * u = 2 powi e" by (simp add: u_def power_int_diff)
    moreover have "(2::real) powi 53 \<le> 2 powi e" using e53 by (intro power_int_increasing) auto
    moreover have "real_of_int N < 2 powi 53"
    proof -
      have "real_of_int N < of_int (2 ^ 53)" using N(2) by (simp only: of_int_less_iff)
      then show ?thesis by simp
    qed
    ultimately show ?thesis using fr by simp
  qed
qed

lemma float_round_le_int:
  assumes x0: "0 < x" and N: "N < 2 ^ 53" and x: "x \<le> of_int N"
  shows "float_round x \<le> of_int N"
proof -
  define e where "e = binade x"
  define u :: real where "u = 2 powi (e - 52)"
  have u0: "0 < u" by (simp add: u_def)
  have fr: "float_round x = of_int (round_half_even (x / u)) * u"
    using float_round_pos[OF x0] by (simp add: u_def e_def)
  have lo: "2 powi e \<le> x" using binade_bounds(1)[OF x0] by (simp add: e_def)
  have "real_of_int N < 2 powi 53"
  proof -
    have "real_of_int N < of_int (2 ^ 53)" using N by (simp only: of_int_less_iff)
    then show ?thesis by simp
  qed
  then have lt: "(2::real) powi e < 2 powi 53" using lo x by linarith
  have True: "e \<le> 52"
  proof (rule ccontr)
    assume "\<not> e \<le> 52"
    then have "53 \<le> e" by simp
    then have "(2::real) powi 53 \<le> 2 powi e" by (intro power_int_increasing) auto
    then show False using lt by linarith
  qed
  define K :: int where "K = N * 2 ^ nat (52 - e)"
  have ui: "u = 1 / 2 ^ nat (52 - e)"
    using True by (simp add: u_def power_int_def power_inverse field_simps)
  have "x / u \<le> of_int N / u" using x u0 by (simp add: divide_right_mono)
  also have "\<dots> = of_int K" by (simp add: K_def ui)
  finally have "round_half_even (x / u) \<le> K" by (rule rhe_le)
  then have "real_of_int (round_half_even (x / u)) \<le> of_int K" by (simp only: of_int_le_iff)
  then have "of_int (round_half_even (x / u)) * u \<le> of_int K * u"
    using u0 by (simp only: mult_le_cancel_right_pos)
  moreover have "of_int K * u = of_int N" by (simp add: K_def ui)
  ultimately show ?thesis using fr by simp
qed

subsection \<open>Literals of the source\<close>

lemma float_lit_1_5: "float_lit 15 10 = 3 / 2"
  unfolding float_lit_def by code_simp

lemma float_lit_2_0: "float_lit 20 10 = 2"
  unfolding float_lit_def by code_simp

lemma float_lit_1_2: "float_lit 12 10 = 5404319552844595 / 4503599627370496"
  unfolding float_lit_def by code_simp

lemma float_lit_1_6: "float_lit 16 10 = 7205759403792794 / 4503599627370496"
  unfolding float_lit_def by code_simp

subsection \<open>Conversion between kW and horsepower\<close>

lemma float_lit_1_36: "float_lit 136 100 = 6124895493223875 / 4503599627370496"
  unfolding float_lit_def by code_simp

lemma float_round_int:
  assumes "0 \<le> n" "n < 2 ^ 53"
  shows "float_round (of_int n) = of_int n"
proof (cases "n = 0")
  case True
  then show ?thesis by (simp add: float_round_def)
next
  case False
  then have n0: "0 < n" using assms by simp
  then have r0: "0 < real_of_int n" by simp
  have "of_int n \<le> float_round (of_int n)"
    by (rule float_round_ge_int[OF n0 assms(2)]) simp
  moreover have "float_round (of_int n) \<le> of_int n"
    by (rule float_round_le_int[OF r0 assms(2)]) simp
  ultimately show ?thesis by simp
qed

lemma float_of_int_small:
  assumes "0 \<le> n" "n < 2 ^ 53"
  shows "float_of_int n = Inr (of_int n)"
proof -
  have "real_of_int n < of_int (2 ^ 53)" using assms(2) by (simp only: of_int_less_iff)
  then have "real_of_int n < 2 ^ 53" by simp
  moreover have "(2::real) ^ 53 < 2 ^ 1024" by simp
  moreover have "0 \<le> real_of_int n" using assms(1) by simp
  ultimately show ?thesis
    using float_round_int[OF assms] by (simp add: float_of_int_def to_pyfloat_def Let_def)
qed


lemma to_pyfloat_Finite:
  assumes "\<bar>float_round x\<bar> < 2 ^ 1024"
  shows "to_pyfloat x = Finite (float_round x)"
  using assms by (auto simp: to_pyfloat_def Let_def)

lemma hp_of_kw_nonneg:
  assumes k0: "0 \<le> k" and kb: "k < 2 ^ 40"
  shows "hp_of_kw k = Inr (k * 34 div 25)"
proof (cases "k = 0")
  case True
  then show ?thesis
    by (simp add: hp_of_kw_def int_mul_float_def float_of_int_def to_pyfloat_def
        float_round_def py_int_def)
next
  case False
  then have k1: "1 \<le> k" using k0 by simp
  define N where "N = k * 34 div 25"
  define x :: real where "x = of_int k * float_lit 136 100"
  have kr: "1 \<le> real_of_int k" "real_of_int k < 2 ^ 40"
  proof -
    show "1 \<le> real_of_int k" using k1 by simp
    have "real_of_int k < of_int (2 ^ 40)" using kb by (simp only: of_int_less_iff)
    then show "real_of_int k < 2 ^ 40" by simp
  qed
  have foi: "float_of_int k = Inr (of_int k)"
    using k0 kb by (intro float_of_int_small) auto
  have dm: "k * 34 = 25 * N + k * 34 mod 25" unfolding N_def by simp
  have md: "0 \<le> k * 34 mod 25" "k * 34 mod 25 < 25" by simp_all
  have kb': "k < 1099511627776" using kb by simp
  have N1: "25 * N \<le> 34 * k" "34 * k \<le> 25 * N + 24" "0 < N" "N < 2 ^ 53"
    using dm md k1 kb' by simp_all
  have Nr: "25 * real_of_int N \<le> 34 * of_int k" "34 * real_of_int k \<le> 25 * of_int N + 24"
  proof -
    have "real_of_int (25 * N) \<le> of_int (34 * k)" using N1(1) by (simp only: of_int_le_iff)
    then show "25 * real_of_int N \<le> 34 * of_int k" by simp
    have "real_of_int (34 * k) \<le> of_int (25 * N + 24)" using N1(2) by (simp only: of_int_le_iff)
    then show "34 * real_of_int k \<le> 25 * of_int N + 24" by simp
  qed
  have xe: "x * 4503599627370496 = of_int k * 6124895493223875"
    unfolding x_def float_lit_1_36 by simp
  have x0: "0 < x" using xe kr by linarith
  have lo: "of_int N \<le> x" using xe Nr kr by linarith
  have ge: "of_int N \<le> float_round x"
    using float_round_ge_int[OF N1(3) N1(4) lo] .
  have err: "\<bar>float_round x - x\<bar> \<le> x / 2 ^ 53" using float_round_err[OF x0] .
  have p53: "(2::real) ^ 53 = 9007199254740992" by simp
  have e1: "float_round x \<le> x + x / 9007199254740992"
    using err unfolding p53 by linarith
  have kr': "real_of_int k < 1099511627776" using kr(2) by simp
  have lt: "float_round x < of_int N + 1"
    using e1 xe Nr kr' by linarith
  have "real_of_int N < 2 ^ 53"
  proof -
    have "real_of_int N < of_int (2 ^ 53)" using N1(4) by (simp only: of_int_less_iff)
    then show ?thesis by simp
  qed
  then have fin: "\<bar>float_round x\<bar> < 2 ^ 1024"
    using ge lt N1(3) by (simp add: abs_less_iff)
  have fl: "\<lfloor>float_round x\<rfloor> = N" using ge lt by (simp add: floor_unique)
  have "0 < real_of_int N" using N1(3) by simp
  then have nn: "0 \<le> float_round x" using ge by linarith
  have tp: "to_pyfloat (of_int k * float_lit 136 100) = Finite (float_round x)"
    using to_pyfloat_Finite[OF fin] by (simp only: x_def)
  show ?thesis
    unfolding hp_of_kw_def int_mul_float_def foi sum.case tp py_int_def pyfloat.case
    using fl nn by (simp add: N_def)
qed


lemma kw_of_hp_nonneg:
  assumes h0: "0 \<le> h" and hb: "h < 2 ^ 41"
  shows "\<exists>n. kw_of_hp h = Inr n \<and> 0 \<le> n \<and> h * 25 div 34 - 1 \<le> n \<and> n \<le> h * 25 div 34
           \<and> (\<not> 34 dvd h \<longrightarrow> n = h * 25 div 34)"
proof (cases "h = 0")
  case True
  have c0: "float_lit 136 100 \<noteq> 0" unfolding float_lit_1_36 by simp
  have "kw_of_hp 0 = Inr 0"
    unfolding kw_of_hp_def int_div_float_def using c0
    by (simp add: float_of_int_def to_pyfloat_def float_round_def py_int_def)
  then show ?thesis using True by simp
next
  case False
  then have h1: "1 \<le> h" using h0 by simp
  define N where "N = h * 25 div 34"
  define r where "r = h * 25 mod 34"
  define x :: real where "x = of_int h / float_lit 136 100"
  have c0: "float_lit 136 100 \<noteq> 0" unfolding float_lit_1_36 by simp
  have hb': "h < 2199023255552" using hb by simp
  have hr: "1 \<le> real_of_int h" "real_of_int h < 2199023255552"
  proof -
    show "1 \<le> real_of_int h" using h1 by simp
    have "real_of_int h < of_int 2199023255552" using hb' by (simp only: of_int_less_iff)
    then show "real_of_int h < 2199023255552" by simp
  qed
  have foi: "float_of_int h = Inr (of_int h)"
    using h0 hb by (intro float_of_int_small) auto
  have dm: "h * 25 = 34 * N + r" unfolding N_def r_def by simp
  have md: "0 \<le> r" "r < 34" unfolding r_def by simp_all
  have N0: "0 \<le> N" using h0 unfolding N_def by (simp add: pos_imp_zdiv_nonneg_iff)
  have Nb: "N < 2 ^ 53" using dm md hb' by simp
  have dmr: "real_of_int h * 25 = 34 * of_int N + of_int r"
  proof -
    have "real_of_int (h * 25) = of_int (34 * N + r)" using dm by (simp only:)
    then show ?thesis by simp
  qed
  have mdr: "0 \<le> real_of_int r" "real_of_int r \<le> 33"
  proof -
    show "0 \<le> real_of_int r" using md(1) by simp
    have "r \<le> 33" using md(2) by simp
    then have "real_of_int r \<le> of_int 33" by (simp only: of_int_le_iff)
    then show "real_of_int r \<le> 33" by simp
  qed
  have xe: "x * 6124895493223875 = of_int h * 4503599627370496"
    unfolding x_def float_lit_1_36 by simp
  have x0: "0 < x" using xe hr by linarith
  have p53: "(2::real) ^ 53 = 9007199254740992" by simp
  have err: "\<bar>float_round x - x\<bar> \<le> x / 9007199254740992"
    using float_round_err[OF x0] unfolding p53 .
  have up: "float_round x < of_int N + 1"
    using err xe dmr mdr hr by linarith
  have "real_of_int N - 1 \<le> float_round x"
    using err xe dmr mdr hr by linarith
  then have lo1: "of_int (N - 1) \<le> float_round x" by simp
  have nn: "0 \<le> float_round x" using err x0 by linarith
  have NbR: "real_of_int N < 2 ^ 53"
  proof -
    have "real_of_int N < of_int (2 ^ 53)" using Nb by (simp only: of_int_less_iff)
    then show ?thesis by simp
  qed
  have "0 \<le> real_of_int N" using N0 by simp
  then have fin: "\<bar>float_round x\<bar> < 2 ^ 1024"
    using nn up NbR by (simp add: abs_less_iff)
  have tp: "to_pyfloat (of_int h / float_lit 136 100) = Finite (float_round x)"
    using to_pyfloat_Finite[OF fin] by (simp only: x_def)
  have res: "kw_of_hp h = Inr \<lfloor>float_round x\<rfloor>"
    unfolding kw_of_hp_def int_div_float_def foi sum.case tp py_int_def pyfloat.case
    using nn c0 by simp
  have f1: "N - 1 \<le> \<lfloor>float_round x\<rfloor>" using lo1 by (simp only: le_floor_iff)
  have f2: "\<lfloor>float_round x\<rfloor> \<le> N" using up by (simp add: floor_le_iff)
  have f0: "0 \<le> \<lfloor>float_round x\<rfloor>" using nn by simp
  have f3: "\<lfloor>float_round x\<rfloor> = N" if nd: "\<not> 34 dvd h"
  proof -
    have "r \<noteq> 0"
    proof
      assume "r = 0"
      then have "h * 25 = 34 * N" using dm by simp
      moreover have "34 * (15 * N - 11 * h) = 510 * N - 374 * h" by simp
      ultimately have "h = 34 * (15 * N - 11 * h)" by linarith
      then have "34 dvd h" by (rule dvdI)
      then show False using nd by simp
    qed
    then have "1 \<le> r" using md(1) by simp
    then have "real_of_int 1 \<le> of_int r" by (simp only: of_int_le_iff)
    then have r1: "1 \<le> real_of_int r" by simp
    have "of_int N \<le> float_round x"
      using err xe dmr mdr hr r1 by linarith
    then have "N \<le> \<lfloor>float_round x\<rfloor>" by (simp only: le_floor_iff)
    then show ?thesis using f2 by simp
  qed
  show ?thesis using res f0 f1 f2 f3 by (simp add: N_def)
qed

lemma roundtrip_nonneg:
  assumes k0: "0 \<le> k" and kb: "k < 2 ^ 40"
  shows "\<exists>h n. hp_of_kw k = Inr h \<and> kw_of_hp h = Inr n \<and> \<bar>n - k\<bar> \<le> 1"
proof -
  define H where "H = k * 34 div 25"
  have hk: "hp_of_kw k = Inr H" unfolding H_def by (rule hp_of_kw_nonneg[OF k0 kb])
  have dm: "k * 34 = 25 * H + k * 34 mod 25" unfolding H_def by simp
  have md: "0 \<le> k * 34 mod 25" "k * 34 mod 25 < 25" by simp_all
  have kb': "k < 1099511627776" using kb by simp
  have H0: "0 \<le> H" using dm md k0 by linarith
  have Hb: "H < 2 ^ 41" using dm md kb' by simp
  obtain n where n: "kw_of_hp H = Inr n" "0 \<le> n" "H * 25 div 34 - 1 \<le> n" "n \<le> H * 25 div 34"
    "\<not> 34 dvd H \<longrightarrow> n = H * 25 div 34"
    using kw_of_hp_nonneg[OF H0 Hb] by blast
  define N where "N = H * 25 div 34"
  have dm2: "H * 25 = 34 * N + H * 25 mod 34" unfolding N_def by simp
  have md2: "0 \<le> H * 25 mod 34" "H * 25 mod 34 < 34" by simp_all
  have Nk: "k - 1 \<le> N" "N \<le> k" using dm md dm2 md2 by linarith+
  have "\<bar>n - k\<bar> \<le> 1"
  proof (cases "34 dvd H")
    case True
    then obtain j where j: "H = 34 * j" by (auto simp: dvd_def)
    have "N = 25 * j" unfolding N_def j by simp
    moreover have "k = 25 * j" using dm md j by linarith
    ultimately show ?thesis using n(3,4) unfolding N_def[symmetric] by simp
  next
    case False
    then have "n = N" using n(5) by (simp add: N_def)
    then show ?thesis using Nk by simp
  qed
  then show ?thesis using hk n(1) by blast
qed

lemma to_pyfloat_uminus:
  "to_pyfloat (- x) = (case to_pyfloat x of Finite r \<Rightarrow> Finite (- r) | PosInf \<Rightarrow> NegInf | NegInf \<Rightarrow> PosInf | NaN \<Rightarrow> NaN)"
  by (simp add: to_pyfloat_def Let_def float_round_uminus)

lemma py_int_uminus:
  "py_int (case x of Finite r \<Rightarrow> Finite (- r) | PosInf \<Rightarrow> NegInf | NegInf \<Rightarrow> PosInf | NaN \<Rightarrow> NaN)
     = map_sum id uminus (py_int x)"
  by (cases x) (auto simp: py_int_def ceiling_def)

lemma float_of_int_uminus: "float_of_int (- n) = map_sum id uminus (float_of_int n)"
  by (cases "to_pyfloat (real_of_int n)") (simp_all add: float_of_int_def to_pyfloat_uminus)

lemma hp_of_kw_uminus: "hp_of_kw (- k) = map_sum id uminus (hp_of_kw k)"
proof (cases "float_of_int k")
  case (Inl e)
  then show ?thesis by (simp add: hp_of_kw_def int_mul_float_def float_of_int_uminus)
next
  case (Inr a)
  have "to_pyfloat (- a * float_lit 136 100) = (case to_pyfloat (a * float_lit 136 100) of Finite r \<Rightarrow> Finite (- r) | PosInf \<Rightarrow> NegInf | NegInf \<Rightarrow> PosInf | NaN \<Rightarrow> NaN)"
    using to_pyfloat_uminus[of "a * float_lit 136 100"] by simp
  then show ?thesis
    unfolding hp_of_kw_def int_mul_float_def float_of_int_uminus Inr
    by (simp add: py_int_uminus)
qed

lemma kw_of_hp_uminus: "kw_of_hp (- h) = map_sum id uminus (kw_of_hp h)"
proof (cases "float_of_int h")
  case (Inl e)
  then show ?thesis by (simp add: kw_of_hp_def int_div_float_def float_of_int_uminus)
next
  case (Inr a)
  have "to_pyfloat (- a / float_lit 136 100) = (case to_pyfloat (a / float_lit 136 100) of Finite r \<Rightarrow> Finite (- r) | PosInf \<Rightarrow> NegInf | NegInf \<Rightarrow> PosInf | NaN \<Rightarrow> NaN)"
    using to_pyfloat_uminus[of "a / float_lit 136 100"] by simp
  then show ?thesis
    unfolding kw_of_hp_def int_div_float_def float_of_int_uminus Inr
    by (simp add: py_int_uminus)
qed

lemma hp_of_kw_trunc:
  assumes "\<bar>k\<bar> < 2 ^ 40"
  shows "hp_of_kw k = Inr (sgn k * (\<bar>k\<bar> * 34 div 25))"
proof (cases "0 \<le> k")
  case True
  then show ?thesis using hp_of_kw_nonneg[of k] assms by (simp add: sgn_if)
next
  case False
  then have "0 \<le> - k" "- k < 2 ^ 40" using assms by simp_all
  then have "hp_of_kw (- k) = Inr (- k * 34 div 25)" by (rule hp_of_kw_nonneg)
  then have "hp_of_kw (- (- k)) = Inr (- (- k * 34 div 25))"
    unfolding hp_of_kw_uminus[of "- k"] by simp
  then show ?thesis using False by (simp add: sgn_if)
qed


lemma binade_unique:
  assumes x0: "0 < x" and lo: "2 powi e \<le> x" and hi: "x < 2 powi (e + 1)"
  shows "binade x = e"
proof -
  have b: "2 powi binade x \<le> x" "x < 2 powi (binade x + 1)"
    using binade_bounds[OF x0] by auto
  have "\<not> binade x < e"
  proof
    assume "binade x < e"
    then have "binade x + 1 \<le> e" by simp
    then have "(2::real) powi (binade x + 1) \<le> 2 powi e" by (intro power_int_increasing) auto
    then show False using b(2) lo by linarith
  qed
  moreover have "\<not> e < binade x"
  proof
    assume "e < binade x"
    then have "e + 1 \<le> binade x" by simp
    then have "(2::real) powi (e + 1) \<le> 2 powi binade x" by (intro power_int_increasing) auto
    then show False using b(1) hi by linarith
  qed
  ultimately show ?thesis by simp
qed

lemma float_round_at:
  assumes "0 < x" "2 powi e \<le> x" "x < 2 powi (e + 1)"
  shows "float_round x = of_int (round_half_even (x / 2 powi (e - 52))) * 2 powi (e - 52)"
  using float_round_pos[OF assms(1)] binade_unique[OF assms] by simp

lemma kw_of_hp_136: "kw_of_hp 136 = Inr 99"
proof -
  have foi: "float_of_int 136 = Inr 136"
    using float_of_int_small[of 136] by simp
  define x :: real where "x = 136 / float_lit 136 100"
  have xv: "x = 612489549322387456 / 6124895493223875"
    unfolding x_def float_lit_1_36 by simp
  have fr: "float_round x = 7036874417766399 / 70368744177664"
    unfolding xv
    by (subst float_round_at[where e = 6]) (simp_all add: round_half_even_def Let_def)
  have tp: "to_pyfloat (136 / float_lit 136 100) = Finite (7036874417766399 / 70368744177664)"
    using fr unfolding x_def by (simp add: to_pyfloat_def Let_def)
  have c0: "float_lit 136 100 \<noteq> 0" unfolding float_lit_1_36 by simp
  show ?thesis
    unfolding kw_of_hp_def int_div_float_def foi sum.case
    using c0 tp by (simp add: py_int_def)
qed


lemma float_round_eval:
  assumes "0 < x" "2 powi e \<le> x" "x < 2 powi (e + 1)"
    and "round_half_even (x / 2 powi (e - 52)) = m" and "of_int m * 2 powi (e - 52) = r"
  shows "float_round x = r"
  using float_round_at[OF assms(1-3)] assms(4,5) by simp

lemma float_round_kw_big: "float_round (real_of_int (10 ^ 17 + 5)) = 100000000000000000"
  by (rule float_round_eval[where e = 56 and m = 6250000000000000])
     (simp_all add: round_half_even_def Let_def)

lemma float_round_product_big: "float_round (100000000000000000 * (6124895493223875 / 4503599627370496)) = 136000000000000016"
  by (rule float_round_eval[where e = 56 and m = 8500000000000001])
     (simp_all add: round_half_even_def Let_def)

lemma float_round_hp_big: "float_round (real_of_int 136000000000000016) = 136000000000000016"
  by (rule float_round_eval[where e = 56 and m = 8500000000000001])
     (simp_all add: round_half_even_def Let_def)

lemma float_round_quotient_big: "float_round (136000000000000016 / (6124895493223875 / 4503599627370496)) = 100000000000000000"
  by (rule float_round_eval[where e = 56 and m = 6250000000000000])
     (simp_all add: round_half_even_def Let_def)

lemma hp_of_kw_big: "hp_of_kw (10 ^ 17 + 5) = Inr 136000000000000016"
proof -
  have foi: "float_of_int (10 ^ 17 + 5) = Inr 100000000000000000"
    unfolding float_of_int_def to_pyfloat_def float_round_kw_big by (simp add: Let_def)
  have tp: "to_pyfloat (100000000000000000 * float_lit 136 100) = Finite 136000000000000016"
    unfolding float_lit_1_36 to_pyfloat_def float_round_product_big by (simp add: Let_def)
  show ?thesis
    unfolding hp_of_kw_def int_mul_float_def foi sum.case tp
    by (simp add: py_int_def)
qed

lemma kw_of_hp_big: "kw_of_hp 136000000000000016 = Inr (10 ^ 17)"
proof -
  have foi: "float_of_int 136000000000000016 = Inr 136000000000000016"
    unfolding float_of_int_def to_pyfloat_def float_round_hp_big by (simp add: Let_def)
  have tp: "to_pyfloat (136000000000000016 / float_lit 136 100) = Finite 100000000000000000"
    unfolding float_lit_1_36 to_pyfloat_def float_round_quotient_big by (simp add: Let_def)
  have c0: "float_lit 136 100 \<noteq> 0" unfolding float_lit_1_36 by simp
  show ?thesis
    unfolding kw_of_hp_def int_div_float_def foi sum.case
    using c0 tp by (simp add: py_int_def)
qed

lemma floor_kw_times_1_36: "\<lfloor>real_of_int k * 1.36\<rfloor> = k * 34 div 25"
proof -
  have "real_of_int k * 1.36 = real_of_int (k * 34) / real_of_int 25" by simp
  then show ?thesis by (simp only: floor_divide_of_int_eq)
qed

lemma floor_hp_div_1_36: "\<lfloor>real_of_int h / 1.36\<rfloor> = h * 25 div 34"
proof -
  have "real_of_int h / 1.36 = real_of_int (h * 25) / real_of_int 34" by simp
  then show ?thesis by (simp only: floor_divide_of_int_eq)
qed

text \<open>
  C3, as the code has it. The horsepower derived from a kW value is \<^verbatim>\<open>int(kw * 1.36)\<close>: the
  product truncated toward zero, not rounded, for a kW typed in and for an estimated kW, in
  the console program and in the web form. When horsepower is the input, the kW is
  \<^verbatim>\<open>int(hp / 1.36)\<close> in binary64 arithmetic: the quotient rounded down, or one less than that
  when the horsepower is a multiple of 34, where the binary64 quotient can fall just below
  the integer.
\<close>

theorem power_logic_truncates:
  "(\<bar>kw\<bar> < 2 ^ 40 \<longrightarrow>
      power_logic (Parsed kw) hp_input engine fuel
        = Inr (kw, sgn kw * \<lfloor>real_of_int \<bar>kw\<bar> * 1.36\<rfloor>))
   \<and> power_logic Blank Blank engine fuel
        = Inr (estimate_kw_from_engine engine fuel,
               \<lfloor>real_of_int (estimate_kw_from_engine engine fuel) * 1.36\<rfloor>)
   \<and> (0 \<le> hp \<and> hp < 2 ^ 41 \<longrightarrow>
        (\<exists>k. power_logic Blank (Parsed hp) engine fuel = Inr (k, hp)
           \<and> \<lfloor>real_of_int hp / 1.36\<rfloor> - 1 \<le> k \<and> k \<le> \<lfloor>real_of_int hp / 1.36\<rfloor>
           \<and> (\<not> 34 dvd hp \<longrightarrow> k = \<lfloor>real_of_int hp / 1.36\<rfloor>)))
   \<and> (0 < kw \<and> kw < 2 ^ 40 \<longrightarrow>
        app_power_logic kw hp engine fuel = Inr (kw, \<lfloor>real_of_int kw * 1.36\<rfloor>))
   \<and> (kw \<le> 0 \<and> hp \<le> 0 \<longrightarrow>
        app_power_logic kw hp engine fuel
          = Inr (app_estimate_kw_from_engine engine fuel,
                 \<lfloor>real_of_int (app_estimate_kw_from_engine engine fuel) * 1.36\<rfloor>))
   \<and> (kw \<le> 0 \<and> 0 < hp \<and> hp < 2 ^ 41 \<longrightarrow>
        (\<exists>k. app_power_logic kw hp engine fuel = Inr (k, hp)
           \<and> \<lfloor>real_of_int hp / 1.36\<rfloor> - 1 \<le> k \<and> k \<le> \<lfloor>real_of_int hp / 1.36\<rfloor>
           \<and> (\<not> 34 dvd hp \<longrightarrow> k = \<lfloor>real_of_int hp / 1.36\<rfloor>)))"
proof -
  have est: "0 \<le> estimate_kw_from_engine engine fuel" "estimate_kw_from_engine engine fuel < 2 ^ 40"
    by (simp_all add: estimate_kw_from_engine_def)
  have app: "app_estimate_kw_from_engine engine fuel = estimate_kw_from_engine engine fuel"
    by (simp add: app_estimate_kw_from_engine_def estimate_kw_from_engine_def)
  have a: "\<bar>kw\<bar> < 2 ^ 40 \<longrightarrow>
      power_logic (Parsed kw) hp_input engine fuel
        = Inr (kw, sgn kw * \<lfloor>real_of_int \<bar>kw\<bar> * 1.36\<rfloor>)"
    unfolding floor_kw_times_1_36 by (simp add: power_logic_def hp_of_kw_trunc)
  have b: "power_logic Blank Blank engine fuel
        = Inr (estimate_kw_from_engine engine fuel,
               \<lfloor>real_of_int (estimate_kw_from_engine engine fuel) * 1.36\<rfloor>)"
    unfolding floor_kw_times_1_36
    by (simp add: power_logic_def Let_def hp_of_kw_nonneg[OF est])
  have c: "\<exists>k. kw_of_hp hp = Inr k
           \<and> \<lfloor>real_of_int hp / 1.36\<rfloor> - 1 \<le> k \<and> k \<le> \<lfloor>real_of_int hp / 1.36\<rfloor>
           \<and> (\<not> 34 dvd hp \<longrightarrow> k = \<lfloor>real_of_int hp / 1.36\<rfloor>)"
    if "0 \<le> hp" "hp < 2 ^ 41"
    unfolding floor_hp_div_1_36 using kw_of_hp_nonneg[OF that] by blast
  have c1: "0 \<le> hp \<and> hp < 2 ^ 41 \<longrightarrow>
        (\<exists>k. power_logic Blank (Parsed hp) engine fuel = Inr (k, hp)
           \<and> \<lfloor>real_of_int hp / 1.36\<rfloor> - 1 \<le> k \<and> k \<le> \<lfloor>real_of_int hp / 1.36\<rfloor>
           \<and> (\<not> 34 dvd hp \<longrightarrow> k = \<lfloor>real_of_int hp / 1.36\<rfloor>))"
  proof
    assume h: "0 \<le> hp \<and> hp < 2 ^ 41"
    then obtain k where k: "kw_of_hp hp = Inr k"
      "\<lfloor>real_of_int hp / 1.36\<rfloor> - 1 \<le> k" "k \<le> \<lfloor>real_of_int hp / 1.36\<rfloor>"
      "\<not> 34 dvd hp \<longrightarrow> k = \<lfloor>real_of_int hp / 1.36\<rfloor>"
      using c by blast
    have "power_logic Blank (Parsed hp) engine fuel = Inr (k, hp)"
      by (simp add: power_logic_def k(1))
    then show "\<exists>k. power_logic Blank (Parsed hp) engine fuel = Inr (k, hp)
           \<and> \<lfloor>real_of_int hp / 1.36\<rfloor> - 1 \<le> k \<and> k \<le> \<lfloor>real_of_int hp / 1.36\<rfloor>
           \<and> (\<not> 34 dvd hp \<longrightarrow> k = \<lfloor>real_of_int hp / 1.36\<rfloor>)"
      using k(2,3,4) by blast
  qed
  have d: "0 < kw \<and> kw < 2 ^ 40 \<longrightarrow>
        app_power_logic kw hp engine fuel = Inr (kw, \<lfloor>real_of_int kw * 1.36\<rfloor>)"
    unfolding floor_kw_times_1_36 by (simp add: app_power_logic_def hp_of_kw_nonneg)
  have e: "kw \<le> 0 \<and> hp \<le> 0 \<longrightarrow>
        app_power_logic kw hp engine fuel
          = Inr (app_estimate_kw_from_engine engine fuel,
                 \<lfloor>real_of_int (app_estimate_kw_from_engine engine fuel) * 1.36\<rfloor>)"
    unfolding floor_kw_times_1_36 app
    by (simp add: app_power_logic_def Let_def app hp_of_kw_nonneg[OF est])
  have f: "kw \<le> 0 \<and> 0 < hp \<and> hp < 2 ^ 41 \<longrightarrow>
        (\<exists>k. app_power_logic kw hp engine fuel = Inr (k, hp)
           \<and> \<lfloor>real_of_int hp / 1.36\<rfloor> - 1 \<le> k \<and> k \<le> \<lfloor>real_of_int hp / 1.36\<rfloor>
           \<and> (\<not> 34 dvd hp \<longrightarrow> k = \<lfloor>real_of_int hp / 1.36\<rfloor>))"
  proof
    assume h: "kw \<le> 0 \<and> 0 < hp \<and> hp < 2 ^ 41"
    then obtain k where k: "kw_of_hp hp = Inr k"
      "\<lfloor>real_of_int hp / 1.36\<rfloor> - 1 \<le> k" "k \<le> \<lfloor>real_of_int hp / 1.36\<rfloor>"
      "\<not> 34 dvd hp \<longrightarrow> k = \<lfloor>real_of_int hp / 1.36\<rfloor>"
      using c[of] by force
    have "app_power_logic kw hp engine fuel = Inr (k, hp)"
      using h by (simp add: app_power_logic_def k(1))
    then show "\<exists>k. app_power_logic kw hp engine fuel = Inr (k, hp)
           \<and> \<lfloor>real_of_int hp / 1.36\<rfloor> - 1 \<le> k \<and> k \<le> \<lfloor>real_of_int hp / 1.36\<rfloor>
           \<and> (\<not> 34 dvd hp \<longrightarrow> k = \<lfloor>real_of_int hp / 1.36\<rfloor>)"
      using k(2,3,4) by blast
  qed
  show ?thesis using a b c1 d e f by blast
qed

theorem power_logic_truncates_witness:
  "power_logic (Parsed 110) Blank 2 ''petrol'' = Inr (110, 149)
   \<and> power_logic Blank Blank 2 ''petrol'' = Inr (132, 179)
   \<and> (\<exists>k. power_logic Blank (Parsed 150) 2 ''petrol'' = Inr (k, 150) \<and> k = 110)
   \<and> app_power_logic 110 150 2 ''petrol'' = Inr (110, 149)
   \<and> app_power_logic 0 0 2 ''petrol'' = Inr (132, 179)"
proof -
  have est: "estimate_kw_from_engine 2 ''petrol'' = 132" "app_estimate_kw_from_engine 2 ''petrol'' = 132"
    unfolding estimate_kw_from_engine_def app_estimate_kw_from_engine_def
      float_lit_1_2 float_lit_1_6 float_lit_2_0
    by code_simp+
  have fl: "\<lfloor>real_of_int \<bar>110\<bar> * 1.36\<rfloor> = 149" "\<lfloor>real_of_int 132 * 1.36\<rfloor> = 179"
    "\<lfloor>real_of_int 150 / 1.36\<rfloor> = 110" "\<lfloor>real_of_int 110 * 1.36\<rfloor> = 149"
    unfolding floor_kw_times_1_36 floor_hp_div_1_36 by simp_all
  show ?thesis
    using power_logic_truncates [where kw = 110 and hp = 150 and hp_input = Blank
        and engine = 2 and fuel = "''petrol''"]
      power_logic_truncates [where kw = 0 and hp = 0 and hp_input = Blank
        and engine = 2 and fuel = "''petrol''"]
    unfolding est fl by auto
qed

text \<open>
  The claim with \<^verbatim>\<open>round\<close> fails: 110 kW gives 149 horsepower where rounding 149.6 gives
  150, and 100 horsepower gives 73 kW where rounding 73.53 gives 74.
\<close>

theorem power_logic_round_counterexample:
  "power_logic (Parsed 110) Blank 2 ''petrol'' = Inr (110, 149)
   \<and> round (110 * 1.36 :: real) = 150
   \<and> power_logic Blank (Parsed 100) 2 ''petrol'' = Inr (73, 100)
   \<and> round (100 / 1.36 :: real) = 74"
proof -
  have "hp_of_kw 110 = Inr 149" using hp_of_kw_nonneg[of 110] by simp
  moreover have "kw_of_hp 100 = Inr 73" using kw_of_hp_nonneg[of 100] by auto
  ultimately show ?thesis by (simp add: power_logic_def round_def)
qed

text \<open>
  C8, as the code has it. For every integer kW of magnitude below \<open>2^40\<close>, converting to
  horsepower and back succeeds and returns a value within one unit of the kW.
\<close>

theorem kw_hp_roundtrip:
  assumes "\<bar>k\<bar> < 2 ^ 40"
  shows "\<exists>h n. hp_of_kw k = Inr h \<and> kw_of_hp h = Inr n \<and> \<bar>n - k\<bar> \<le> 1"
proof (cases "0 \<le> k")
  case True
  then show ?thesis using roundtrip_nonneg[of k] assms by simp
next
  case False
  then have "0 \<le> - k" "- k < 2 ^ 40" using assms by simp_all
  then obtain h n where hn: "hp_of_kw (- k) = Inr h" "kw_of_hp h = Inr n" "\<bar>n - (- k)\<bar> \<le> 1"
    using roundtrip_nonneg[of "- k"] by blast
  have "hp_of_kw (- (- k)) = Inr (- h)" unfolding hp_of_kw_uminus[of "- k"] hn by simp
  moreover have "kw_of_hp (- h) = Inr (- n)" unfolding kw_of_hp_uminus hn by simp
  moreover have "\<bar>- n - k\<bar> \<le> 1" using hn(3) by simp
  ultimately show ?thesis by (metis minus_minus)
qed

theorem kw_hp_roundtrip_witness:
  "\<bar>25 :: int\<bar> < 2 ^ 40 \<and> (\<exists>h n. hp_of_kw 25 = Inr h \<and> kw_of_hp h = Inr n \<and> \<bar>n - 25\<bar> \<le> 1)"
  using kw_hp_roundtrip [of 25] by simp

text \<open>
  Beyond the 53 bits of a binary64 significand the round trip drifts: the kW
  \<open>10^17 + 5\<close> comes back as \<open>10^17\<close>.
\<close>

theorem kw_hp_roundtrip_counterexample:
  "hp_of_kw (10 ^ 17 + 5) = Inr 136000000000000016
   \<and> kw_of_hp 136000000000000016 = Inr (10 ^ 17)
   \<and> \<not> \<bar>(10 ^ 17 :: int) - (10 ^ 17 + 5)\<bar> \<le> 1"
  using hp_of_kw_big kw_of_hp_big by simp

subsection \<open>The Ford Mondeo scenario\<close>

lemma estimate_1_6_diesel: "estimate_kw_from_engine (float_lit 16 10) ''diesel'' = 110"
proof -
  have "py_in ''diesel'' (py_lower ''diesel'')" by code_simp
  then show ?thesis
    unfolding estimate_kw_from_engine_def float_lit_1_5 float_lit_2_0 float_lit_1_6 by simp
qed

lemma power_logic_1_6_diesel: "power_logic Blank Blank (float_lit 16 10) ''diesel'' = Inr (110, 149)"
  using hp_of_kw_nonneg[of 110] by (simp add: power_logic_def estimate_1_6_diesel)

lemma scenario_strings:
  "py_lower (py_strip ''Ford'') = ''ford''"
  "py_lower (py_strip ''mondeo'') = ''mondeo''"
  "py_lower (py_strip ''diesel'') = ''diesel''"
  "py_lower (py_strip ''manual'') = ''manual''"
  "filter (py_in ''ford'') [''ford mondeo''] = [''ford mondeo'']"
  "py_isdigit ''mondeo'' = False"
  by code_simp+

lemma scenario_model:
  "select_model (Some (ford_table bc mc)) ''ford'' [''ford mondeo''] ''mondeo'' = ''ford mondeo''"
  by (simp add: select_model_def scenario_strings ford_table_def)

lemma scenario_tech_vector:
  "tech_vector 2020 110 149 80000 (float_lit 16 10) ''manual'' ''diesel''
     = [2020, 110, 149, 80000, float_lit 16 10, 0, 1, 0, 1, 0, 0, 0, 0]"
  by (simp add: tech_vector_def)

lemma ford_mondeo_prediction:
  "get_prediction np_expm1 m_tech m_brand (Some (ford_table brand_code model_code)) ford_mondeo_input
     = Inr \<lparr>out_model = ''ford mondeo'', out_kw = 110, out_hp = 149,
            out_tech_vector = [2020, 110, 149, 80000, float_lit 16 10, 0, 1, 0, 1, 0, 0, 0, 0],
            out_brand_vector = [brand_code, model_code],
            out_price = price np_expm1 (m_tech [2020, 110, 149, 80000, float_lit 16 10, 0, 1, 0, 1, 0, 0, 0, 0])
                          (m_brand [brand_code, model_code]) (float_lit 85 100)\<rparr>"
proof -
  have av: "available_models (ford_table brand_code model_code) ''ford'' = [''ford mondeo'']"
    by (simp add: available_models_def ford_table_def scenario_strings)
  have enc: "encoding_lookup (Some (ford_table brand_code model_code)) ''ford'' ''ford mondeo''
      = (Some brand_code, Some model_code)"
    by (simp add: encoding_lookup_def ford_table_def)
  show ?thesis
    unfolding get_prediction_def ford_mondeo_input_def
    by (simp add: scenario_strings av scenario_model required_def power_logic_1_6_diesel enc
        manual_override_def scenario_tech_vector estimate_1_6_diesel Let_def)
qed

text \<open>
  C4, as the code has it. In the Ford Mondeo scenario the estimator yields 110 kW, the
  horsepower is \<^verbatim>\<open>int(110 * 1.36)\<close>, which is 149, and the technical vector is
  \<open>[2020, 110, 149, 80000, 1.6, 0, 1, 0, 1, 0, 0, 0, 0]\<close>; the prediction is returned for any
  pair of regressors and any two codes of the table.
\<close>

theorem ford_mondeo_scenario:
  "estimate_kw_from_engine (float_lit 16 10) ''diesel'' = 110
   \<and> get_prediction np_expm1 m_tech m_brand (Some (ford_table brand_code model_code)) ford_mondeo_input
     = Inr \<lparr>out_model = ''ford mondeo'', out_kw = 110, out_hp = 149,
            out_tech_vector = [2020, 110, 149, 80000, float_lit 16 10, 0, 1, 0, 1, 0, 0, 0, 0],
            out_brand_vector = [brand_code, model_code],
            out_price = price np_expm1 (m_tech [2020, 110, 149, 80000, float_lit 16 10, 0, 1, 0, 1, 0, 0, 0, 0])
                          (m_brand [brand_code, model_code]) (float_lit 85 100)\<rparr>"
  using estimate_1_6_diesel ford_mondeo_prediction by simp

text \<open>The vector of the scenario does not hold the horsepower 150.\<close>

theorem ford_mondeo_scenario_counterexample:
  "map_sum id out_tech_vector (get_prediction (\<lambda>x. x) (\<lambda>v. 0) (\<lambda>v. 0) (Some (ford_table 1 2)) ford_mondeo_input)
     \<noteq> Inr [2020, 110, 150, 80000, float_lit 16 10, 0, 1, 0, 1, 0, 0, 0, 0]
   \<and> map_sum id out_hp (get_prediction (\<lambda>x. x) (\<lambda>v. 0) (\<lambda>v. 0) (Some (ford_table 1 2)) ford_mondeo_input)
     = Inr 149"
proof -
  have av: "available_models (ford_table 1 2) ''ford'' = [''ford mondeo'']"
    by (simp add: available_models_def ford_table_def scenario_strings)
  have enc: "encoding_lookup (Some (ford_table 1 2)) ''ford'' ''ford mondeo'' = (Some 1, Some 2)"
    by (simp add: encoding_lookup_def ford_table_def)
  show ?thesis
    unfolding get_prediction_def ford_mondeo_input_def
    by (simp add: scenario_strings av scenario_model required_def power_logic_1_6_diesel enc
        manual_override_def scenario_tech_vector Let_def)
qed


subsection \<open>Flags of the technical vector\<close>

lemma app_tech_vector_eq:
  "app_tech_vector year kw hp km engine t f = tech_vector year kw hp km engine t f"
  by (simp add: app_tech_vector_def tech_vector_def f_dict_def Let_def)

text \<open>
  C9. In the technical vector every flag is 0 or 1, at most one transmission flag and at
  most one fuel flag is 1, both transmission flags are 0 exactly when the transmission
  string is neither \<open>automatic\<close> nor \<open>manual\<close>, the transmission flags depend on the
  transmission string alone and the fuel flags on the fuel string alone; the web form builds
  the same vector.
\<close>

theorem one_hot_flags:
  "length (tech_vector year kw hp km engine t f) = 13
   \<and> (\<forall>i \<in> {5..<13}. tech_vector year kw hp km engine t f ! i \<in> {0, 1})
   \<and> tech_vector year kw hp km engine t f ! 5 + tech_vector year kw hp km engine t f ! 6 \<le> 1
   \<and> sum_list (drop 7 (tech_vector year kw hp km engine t f)) \<le> 1
   \<and> ((tech_vector year kw hp km engine t f ! 5 = 0 \<and> tech_vector year kw hp km engine t f ! 6 = 0)
        = (t \<noteq> ''automatic'' \<and> t \<noteq> ''manual''))
   \<and> take 2 (drop 5 (tech_vector year kw hp km engine t f))
        = take 2 (drop 5 (tech_vector year' kw' hp' km' engine' t f'))
   \<and> drop 7 (tech_vector year kw hp km engine t f)
        = drop 7 (tech_vector year' kw' hp' km' engine' t' f)
   \<and> app_tech_vector year kw hp km engine t f = tech_vector year kw hp km engine t f"
proof -
  have idx: "{5..<13::nat} = {5, 6, 7, 8, 9, 10, 11, 12}" by auto
  show ?thesis
    unfolding idx app_tech_vector_eq
    by (simp add: tech_vector_def Let_def)
qed

theorem one_hot_flags_witness:
  "tech_vector 2020 110 149 80000 1 ''cvt'' ''diesel'' ! 5 = 0
   \<and> tech_vector 2020 110 149 80000 1 ''cvt'' ''diesel'' ! 6 = 0
   \<and> (8::nat) \<in> {5..<13}
   \<and> tech_vector 2020 110 149 80000 1 ''cvt'' ''diesel'' ! 8 = 1"
  using one_hot_flags [of 2020 110 149 80000 1 "''cvt''" "''diesel''"]
  by (simp add: tech_vector_def)

subsection \<open>The price\<close>



text \<open>Rounding is monotone, so the order of two exact results survives it.\<close>

lemma rhe_mono: "a \<le> b \<Longrightarrow> round_half_even a \<le> round_half_even b"
proof -
  assume ab: "a \<le> b"
  then have fl: "\<lfloor>a\<rfloor> \<le> \<lfloor>b\<rfloor>" by (rule floor_mono)
  show ?thesis
  proof (cases "\<lfloor>a\<rfloor> = \<lfloor>b\<rfloor>")
    case True
    then show ?thesis using ab by (auto simp: round_half_even_def Let_def)
  next
    case False
    then have "\<lfloor>a\<rfloor> + 1 \<le> \<lfloor>b\<rfloor>" using fl by simp
    moreover have "round_half_even a \<le> \<lfloor>a\<rfloor> + 1" by (simp add: round_half_even_def Let_def)
    moreover have "\<lfloor>b\<rfloor> \<le> round_half_even b" by (simp add: round_half_even_def Let_def)
    ultimately show ?thesis by linarith
  qed
qed

lemma float_round_binade:
  assumes x0: "0 < x"
  shows "2 powi binade x \<le> float_round x" and "float_round x \<le> 2 powi (binade x + 1)"
proof -
  define e where "e = binade x"
  define u :: real where "u = 2 powi (e - 52)"
  have u0: "0 < u" by (simp add: u_def)
  have fr: "float_round x = of_int (round_half_even (x / u)) * u"
    using float_round_pos[OF x0] by (simp add: u_def e_def)
  have b: "2 powi e \<le> x" "x < 2 powi (e + 1)" using binade_bounds[OF x0] by (simp_all add: e_def)
  have lo: "2 powi e = of_int (2 ^ 52) * u" by (simp add: u_def power_int_diff)
  have hi: "2 powi (e + 1) = of_int (2 ^ 53) * u"
    by (simp add: u_def power_int_diff power_int_add)
  have "real_of_int (2 ^ 52) \<le> x / u" using b(1) u0 unfolding lo by (simp add: field_simps)
  then have "(2::int) ^ 52 \<le> round_half_even (x / u)" by (rule rhe_ge)
  then have "real_of_int (2 ^ 52) \<le> of_int (round_half_even (x / u))" by (simp only: of_int_le_iff)
  then have "of_int (2 ^ 52) * u \<le> of_int (round_half_even (x / u)) * u"
    using u0 by (simp only: mult_le_cancel_right_pos)
  then show "2 powi binade x \<le> float_round x" unfolding fr e_def[symmetric] lo .
  have "x / u \<le> real_of_int (2 ^ 53)" using b(2) u0 unfolding hi by (simp add: field_simps)
  then have "round_half_even (x / u) \<le> 2 ^ 53" by (rule rhe_le)
  then have "real_of_int (round_half_even (x / u)) \<le> of_int (2 ^ 53)" by (simp only: of_int_le_iff)
  then have "of_int (round_half_even (x / u)) * u \<le> of_int (2 ^ 53) * u"
    using u0 by (simp only: mult_le_cancel_right_pos)
  then show "float_round x \<le> 2 powi (binade x + 1)" unfolding fr e_def[symmetric] hi .
qed

lemma float_round_mono_pos:
  assumes x0: "0 < x" and xy: "x \<le> y"
  shows "float_round x \<le> float_round y"
proof -
  have y0: "0 < y" using x0 xy by linarith
  have bx: "2 powi binade x \<le> x" "x < 2 powi (binade x + 1)" using binade_bounds[OF x0] by auto
  have yb: "2 powi binade y \<le> y" "y < 2 powi (binade y + 1)" using binade_bounds[OF y0] by auto
  have le: "binade x \<le> binade y"
  proof (rule ccontr)
    assume "\<not> binade x \<le> binade y"
    then have "binade y + 1 \<le> binade x" by simp
    then have "(2::real) powi (binade y + 1) \<le> 2 powi binade x" by (intro power_int_increasing) auto
    then show False using bx(1) yb(2) xy by linarith
  qed
  show ?thesis
  proof (cases "binade x = binade y")
    case True
    define u :: real where "u = 2 powi (binade y - 52)"
    have u0: "0 < u" by (simp add: u_def)
    have "x / u \<le> y / u" using xy u0 by (simp add: divide_right_mono)
    then have "round_half_even (x / u) \<le> round_half_even (y / u)" by (rule rhe_mono)
    then have "real_of_int (round_half_even (x / u)) \<le> of_int (round_half_even (y / u))"
      by (simp only: of_int_le_iff)
    then have "of_int (round_half_even (x / u)) * u \<le> of_int (round_half_even (y / u)) * u"
      using u0 by (simp only: mult_le_cancel_right_pos)
    then show ?thesis
      using float_round_pos[OF x0] float_round_pos[OF y0] True by (simp add: u_def)
  next
    case False
    then have "binade x + 1 \<le> binade y" using le by simp
    then have "(2::real) powi (binade x + 1) \<le> 2 powi binade y" by (intro power_int_increasing) auto
    then show ?thesis
      using float_round_binade(2)[OF x0] float_round_binade(1)[OF y0] by linarith
  qed
qed

lemma float_round_nonneg: "0 \<le> x \<Longrightarrow> 0 \<le> float_round x"
proof (cases "x = 0")
  case True
  then show ?thesis by (simp add: float_round_def)
next
  case False
  assume "0 \<le> x"
  then have x0: "0 < x" using False by simp
  have "(0::real) < 2 powi binade x" by simp
  then show ?thesis using float_round_binade(1)[OF x0] by linarith
qed

lemma float_round_mono: "x \<le> y \<Longrightarrow> float_round x \<le> float_round y"
proof -
  assume xy: "x \<le> y"
  consider "0 < x" | "x \<le> 0" "0 \<le> y" | "y < 0" by linarith
  then show ?thesis
  proof cases
    case 1
    then show ?thesis using xy by (rule float_round_mono_pos)
  next
    case 2
    have "0 \<le> float_round (- x)" using 2(1) by (intro float_round_nonneg) simp
    then have "float_round x \<le> 0" by (simp add: float_round_uminus)
    moreover have "0 \<le> float_round y" using 2(2) by (rule float_round_nonneg)
    ultimately show ?thesis by linarith
  next
    case 3
    have "float_round (- y) \<le> float_round (- x)"
      using 3 xy by (intro float_round_mono_pos) simp_all
    then show ?thesis by (simp add: float_round_uminus)
  qed
qed


lemma to_pyfloat_mono: "x \<le> y \<Longrightarrow> pyfloat_le (to_pyfloat x) (to_pyfloat y)"
proof -
  assume "x \<le> y"
  then have "float_round x \<le> float_round y" by (rule float_round_mono)
  then show ?thesis by (auto simp: to_pyfloat_def pyfloat_le_def Let_def)
qed


lemma to_pyfloat_exact:
  "float_round x = x \<Longrightarrow> \<bar>x\<bar> < 2 ^ 1024 \<Longrightarrow> to_pyfloat x = Finite x"
  by (auto simp: to_pyfloat_def Let_def)

lemma float_round_5_2: "float_round (5 / 2) = 5 / 2"
  by (rule float_round_eval[where e = 1 and m = 5629499534213120])
     (simp_all add: round_half_even_def Let_def)

lemma float_round_1: "float_round 1 = 1"
  using float_round_int[of 1] by simp

lemma float_round_absorb: "float_round (1 + 1 / 2 ^ 60) = 1"
  by (rule float_round_eval[where e = 0 and m = 4503599627370496])
     (simp_all add: round_half_even_def Let_def)


text \<open>The sample of the library function, and the sums and products taken at it.\<close>

lemma float_lit_0_85: "float_lit 85 100 = 7656119366529843 / 9007199254740992"
  unfolding float_lit_def
  by (rule float_round_eval[where e = "-1" and m = 7656119366529843])
     (simp_all add: round_half_even_def Let_def)

lemma to_pyfloat_10: "to_pyfloat (10 + 0) = Finite 10"
  using to_pyfloat_exact[of 10] float_round_int[of 10] by simp



lemma to_pyfloat_5_2: "to_pyfloat (2 + 1/2) = Finite (5/2)"
  using to_pyfloat_exact[OF float_round_5_2] by simp

lemma to_pyfloat_m1: "to_pyfloat (- 1 + 0) = Finite (- 1)"
  using to_pyfloat_exact[of "- 1"] float_round_int[of 1] float_round_uminus[of 1] by simp

lemma expm1_sample_values:
  "expm1_sample (Finite 10) = Finite (189197310535723 / 8589934592)"
  "expm1_sample (Finite (5/2)) = Finite (6295184454312123 / 562949953421312)"
  "expm1_sample (Finite (- 1)) = Finite (- (1423408956596761 / 2251799813685248))"
  by (simp_all add: expm1_sample_def)



lemma float_round_expm1_m1:
  "float_round (1423408956596761 / 2251799813685248) = 1423408956596761 / 2251799813685248"
  by (rule float_round_eval[where e = "-1" and m = 5693635826387044])
     (simp_all add: round_half_even_def Let_def)

lemma float_round_expm1_m1_half:
  "float_round (1423408956596761 / 4503599627370496) = 1423408956596761 / 4503599627370496"
  by (rule float_round_eval[where e = "-2" and m = 5693635826387044])
     (simp_all add: round_half_even_def Let_def)

lemma float_round_tie_lo:
  "float_round (189197310535723 / 8589934592 * (3828059683264921 / 4503599627370496))
     = 5146166846571665 / 274877906944"
  by (rule float_round_eval[where e = 14 and m = 5146166846571665])
     (simp_all add: round_half_even_def Let_def)

lemma float_round_tie_hi:
  "float_round (189197310535723 / 8589934592 * (7656119366529843 / 9007199254740992))
     = 5146166846571665 / 274877906944"
  by (rule float_round_eval[where e = 14 and m = 5146166846571665])
     (simp_all add: round_half_even_def Let_def)


lemma py_mul_tie:
  "py_mul (Finite (189197310535723 / 8589934592)) (3828059683264921 / 4503599627370496)
     = Finite (5146166846571665 / 274877906944)"
  "py_mul (Finite (189197310535723 / 8589934592)) (7656119366529843 / 9007199254740992)
     = Finite (5146166846571665 / 274877906944)"
proof -
  show "py_mul (Finite (189197310535723 / 8589934592)) (3828059683264921 / 4503599627370496)
     = Finite (5146166846571665 / 274877906944)"
    unfolding py_mul_def pyfloat.case to_pyfloat_def float_round_tie_lo by (simp add: Let_def)
  show "py_mul (Finite (189197310535723 / 8589934592)) (7656119366529843 / 9007199254740992)
     = Finite (5146166846571665 / 274877906944)"
    unfolding py_mul_def pyfloat.case to_pyfloat_def float_round_tie_hi by (simp add: Let_def)
qed

lemma price_sample_10_tie:
  "price expm1_sample 10 0 (3828059683264921 / 4503599627370496)
     = Finite (5146166846571665 / 274877906944)"
  "price expm1_sample 10 0 (float_lit 85 100) = Finite (5146166846571665 / 274877906944)"
proof -
  show "price expm1_sample 10 0 (3828059683264921 / 4503599627370496)
     = Finite (5146166846571665 / 274877906944)"
    unfolding price_def to_pyfloat_10 expm1_sample_values by (rule py_mul_tie(1))
  show "price expm1_sample 10 0 (float_lit 85 100) = Finite (5146166846571665 / 274877906944)"
    unfolding float_lit_0_85 price_def to_pyfloat_10 expm1_sample_values by (rule py_mul_tie(2))
qed

lemma price_sample_m1:
  "price expm1_sample (- 1) 0 (1/2) = Finite (- (1423408956596761 / 4503599627370496))"
  "price expm1_sample (- 1) 0 1 = Finite (- (1423408956596761 / 2251799813685248))"
proof -
  have h: "float_round (- (1423408956596761 / 4503599627370496))
      = - (1423408956596761 / 4503599627370496)"
    unfolding float_round_uminus float_round_expm1_m1_half by (rule refl)
  have o: "float_round (- (1423408956596761 / 2251799813685248))
      = - (1423408956596761 / 2251799813685248)"
    unfolding float_round_uminus float_round_expm1_m1 by (rule refl)
  have mh: "py_mul (Finite (- (1423408956596761 / 2251799813685248))) (1/2)
      = Finite (- (1423408956596761 / 4503599627370496))"
    using to_pyfloat_exact[OF h] by (simp add: py_mul_def)
  have mo: "py_mul (Finite (- (1423408956596761 / 2251799813685248))) 1
      = Finite (- (1423408956596761 / 2251799813685248))"
    using to_pyfloat_exact[OF o] by (simp add: py_mul_def)
  show "price expm1_sample (- 1) 0 (1/2) = Finite (- (1423408956596761 / 4503599627370496))"
    unfolding price_def to_pyfloat_m1 expm1_sample_values by (rule mh)
  show "price expm1_sample (- 1) 0 1 = Finite (- (1423408956596761 / 2251799813685248))"
    unfolding price_def to_pyfloat_m1 expm1_sample_values by (rule mo)
qed




text \<open>
  Whatever function stands for \<^verbatim>\<open>np.expm1\<close>, the price is not the exact
  \<open>(e^(log_base + log_brand) - 1) * c\<close> at every input: the sum \<open>1 + 2^-60\<close> rounds to 1.
\<close>

lemma price_not_exact_for_any_expm1:
  "\<not> (\<exists>np_expm1. \<forall>log_base log_brand c.
         price np_expm1 log_base log_brand c = Finite ((exp (log_base + log_brand) - 1) * c))"
proof
  assume "\<exists>np_expm1. \<forall>log_base log_brand c.
         price np_expm1 log_base log_brand c = Finite ((exp (log_base + log_brand) - 1) * c)"
  then obtain E where E: "\<And>a b c. price E a b c = Finite ((exp (a + b) - 1) * c)" by blast
  have "to_pyfloat (1 + 1 / 2 ^ 60) = Finite 1"
    using float_round_absorb by (simp add: to_pyfloat_def Let_def)
  moreover have "to_pyfloat (1 + 0) = Finite 1"
    using float_round_1 by (simp add: to_pyfloat_def Let_def)
  ultimately have "price E 1 (1 / 2 ^ 60) 1 = price E 1 0 1" by (simp only: price_def)
  then have "exp (1 + 1 / 2 ^ 60 :: real) = exp (1 + 0)" unfolding E by simp
  then have "(1 + 1 / 2 ^ 60 :: real) = 1 + 0" by (simp only: exp_inj_iff)
  then show False by simp
qed

lemma py_mul_mono:
  assumes "0 \<le> v" "c1 \<le> c2"
  shows "pyfloat_le (py_mul (Finite v) c1) (py_mul (Finite v) c2)"
proof -
  have "v * c1 \<le> v * c2" using assms by (rule mult_left_mono[rotated])
  then show ?thesis unfolding py_mul_def pyfloat.case by (rule to_pyfloat_mono)
qed

lemma py_mul_antimono:
  assumes "v \<le> 0" "c1 \<le> c2"
  shows "pyfloat_le (py_mul (Finite v) c2) (py_mul (Finite v) c1)"
proof -
  have "v * c2 \<le> v * c1" using assms by (simp add: mult_left_mono_neg)
  then show ?thesis unfolding py_mul_def pyfloat.case by (rule to_pyfloat_mono)
qed

text \<open>
  C5, as the code has it. For fixed regressor outputs at which \<^verbatim>\<open>np.expm1\<close> returns a
  finite value that is not negative, the price does not decrease when the condition factor
  grows: \<open>c1 \<le> c2\<close> gives \<open>price(c1) \<le> price(c2)\<close>, an overflowing product being infinity.
  It is not strictly increasing, since the product is rounded and two factors can give one
  price. Where the library value is negative or zero the price does not increase; the code
  has no clamp. The web form computes the same price.
\<close>

theorem price_monotone_in_condition:
  "(np_expm1 (to_pyfloat (log_base + log_brand)) = Finite v \<and> 0 \<le> v \<and> c1 \<le> c2
      \<longrightarrow> pyfloat_le (price np_expm1 log_base log_brand c1) (price np_expm1 log_base log_brand c2))
   \<and> (np_expm1 (to_pyfloat (log_base + log_brand)) = Finite v \<and> v \<le> 0 \<and> c1 \<le> c2
      \<longrightarrow> pyfloat_le (price np_expm1 log_base log_brand c2) (price np_expm1 log_base log_brand c1))
   \<and> final_price np_expm1 log_base log_brand c1 = price np_expm1 log_base log_brand c1"
proof -
  have 1: "np_expm1 (to_pyfloat (log_base + log_brand)) = Finite v \<and> 0 \<le> v \<and> c1 \<le> c2
      \<longrightarrow> pyfloat_le (price np_expm1 log_base log_brand c1) (price np_expm1 log_base log_brand c2)"
    using py_mul_mono by (simp add: price_def)
  have 2: "np_expm1 (to_pyfloat (log_base + log_brand)) = Finite v \<and> v \<le> 0 \<and> c1 \<le> c2
      \<longrightarrow> pyfloat_le (price np_expm1 log_base log_brand c2) (price np_expm1 log_base log_brand c1)"
    using py_mul_antimono by (simp add: price_def)
  have 3: "final_price np_expm1 log_base log_brand c1 = price np_expm1 log_base log_brand c1"
    by (simp add: price_def final_price_def)
  show ?thesis by (rule conjI[OF 1 conjI[OF 2 3]])
qed

theorem price_monotone_in_condition_witness:
  "expm1_sample (to_pyfloat (10 + 0)) = Finite (189197310535723 / 8589934592)
   \<and> (0::real) \<le> 189197310535723 / 8589934592 \<and> (1/2 :: real) \<le> 1
   \<and> pyfloat_le (price expm1_sample 10 0 (1/2)) (price expm1_sample 10 0 1)
   \<and> expm1_sample (to_pyfloat (- 1 + 0)) = Finite (- (1423408956596761 / 2251799813685248))
   \<and> - (1423408956596761 / 2251799813685248) \<le> (0::real)
   \<and> pyfloat_le (price expm1_sample (- 1) 0 1) (price expm1_sample (- 1) 0 (1/2))"
proof -
  have v: "expm1_sample (to_pyfloat (10 + 0)) = Finite (189197310535723 / 8589934592)"
    unfolding to_pyfloat_10 by (rule expm1_sample_values(1))
  have w: "expm1_sample (to_pyfloat (- 1 + 0)) = Finite (- (1423408956596761 / 2251799813685248))"
    unfolding to_pyfloat_m1 by (rule expm1_sample_values(3))
  have A: "pyfloat_le (price expm1_sample 10 0 (1/2)) (price expm1_sample 10 0 1)"
    using price_monotone_in_condition [of expm1_sample 10 0 "189197310535723 / 8589934592" "1/2" 1] v
    by simp
  have B: "pyfloat_le (price expm1_sample (- 1) 0 1) (price expm1_sample (- 1) 0 (1/2))"
    using price_monotone_in_condition [of expm1_sample "- 1" 0
        "- (1423408956596761 / 2251799813685248)" "1/2" 1] w
    by simp
  show ?thesis using v w A B by simp
qed

theorem price_monotone_counterexample:
  "(3828059683264921 / 4503599627370496 :: real) < float_lit 85 100
   \<and> price expm1_sample 10 0 (3828059683264921 / 4503599627370496)
       = Finite (5146166846571665 / 274877906944)
   \<and> price expm1_sample 10 0 (float_lit 85 100) = Finite (5146166846571665 / 274877906944)
   \<and> (1/2 :: real) < 1
   \<and> price expm1_sample (- 1) 0 (1/2) = Finite (- (1423408956596761 / 4503599627370496))
   \<and> price expm1_sample (- 1) 0 1 = Finite (- (1423408956596761 / 2251799813685248))
   \<and> \<not> pyfloat_le (price expm1_sample (- 1) 0 (1/2)) (price expm1_sample (- 1) 0 1)"
proof -
  have l: "(3828059683264921 / 4503599627370496 :: real) < float_lit 85 100"
    unfolding float_lit_0_85 by simp
  have n: "\<not> pyfloat_le (price expm1_sample (- 1) 0 (1/2)) (price expm1_sample (- 1) 0 1)"
    unfolding price_sample_m1 by (simp add: pyfloat_le_def)
  show ?thesis using l n price_sample_10_tie price_sample_m1 by simp
qed

subsection \<open>Model search\<close>

lemma string_le_lexord:
  "(x :: string) \<le> y \<longleftrightarrow> x = y \<or> (x, y) \<in> lexord {(c, d). (of_char c :: nat) < of_char d}"
proof -
  have "{(u :: char, v). u < v} = {(c, d). (of_char c :: nat) < of_char d}"
    by (auto simp: less_char_def)
  then show ?thesis by (auto simp: list_le_def list_less_def)
qed

lemma last_dropWhile: "dropWhile P xs \<noteq> [] \<Longrightarrow> last (dropWhile P xs) = last xs"
  by (induction xs) (auto split: if_splits)

lemma py_strip_ends:
  "py_strip s = [] \<or> (\<not> py_isspace (hd (py_strip s)) \<and> \<not> py_isspace (last (py_strip s)))"
proof (cases "py_strip s = []")
  case True
  then show ?thesis by simp
next
  case False
  define t where "t = dropWhile py_isspace s"
  define u where "u = dropWhile py_isspace (rev t)"
  have ps: "py_strip s = rev u" by (simp add: py_strip_def t_def u_def)
  have u: "u \<noteq> []" using False ps by simp
  then have t: "t \<noteq> []" unfolding u_def by auto
  have "\<not> py_isspace (hd u)" using u unfolding u_def by (rule hd_dropWhile)
  then have l: "\<not> py_isspace (last (rev u))" using u by (simp add: last_rev)
  have "last u = last (rev t)" using u unfolding u_def by (rule last_dropWhile)
  also have "\<dots> = hd t" using t by (simp add: last_rev)
  finally have "hd (rev u) = hd t" using u by (simp add: hd_rev)
  moreover have "\<not> py_isspace (hd t)" using t unfolding t_def by (rule hd_dropWhile)
  ultimately show ?thesis using l ps by simp
qed

lemma py_replace_absent:
  "old \<noteq> [] \<Longrightarrow> \<not> sublist old s \<Longrightarrow> py_replace s old new = s"
proof (induction s)
  case Nil
  then show ?case by simp
next
  case (Cons c s)
  have np: "\<not> py_startswith (c # s) old"
    using Cons.prems(2) by (auto simp: py_startswith_prefix dest: prefix_imp_sublist)
  have ns: "\<not> sublist old s" using Cons.prems(2) by (auto simp: sublist_Cons_right)
  show ?case using Cons.IH[OF Cons.prems(1) ns] np Cons.prems(1) by simp
qed

lemma py_replace_prefix:
  assumes "old \<noteq> []"
  shows "py_replace (old @ r) old new = new @ py_replace r old new"
proof -
  obtain c s where cs: "old @ r = c # s" using assms by (cases old) auto
  have "py_startswith (c # s) old" unfolding cs[symmetric] by (simp add: py_startswith_prefix)
  moreover have "drop (length old) (c # s) = r" unfolding cs[symmetric] by simp
  ultimately show ?thesis unfolding cs using assms by simp
qed

text \<open>
  C7. For every brand string the search returns exactly the keys of the models dictionary
  that contain the brand string as a substring, in lexicographic order of the characters'
  code points, and without repetition. A candidate is displayed as the key with the
  occurrences of the brand string removed, stripped of surrounding whitespace and
  title-cased: for a key that is the brand followed by a rest without the brand in it, that
  is the rest, stripped and title-cased.
\<close>

theorem available_models_search:
  "set (available_models mp b) = {m \<in> fst ` set (models mp). sublist b m}
   \<and> sorted_wrt (\<lambda>x y. x = y \<or> (x, y) \<in> lexord {(c, d). (of_char c :: nat) < of_char d})
        (available_models mp b)
   \<and> (distinct (map fst (models mp)) \<longrightarrow> distinct (available_models mp b))
   \<and> display_name m b = py_title (py_strip (py_replace m b []))
   \<and> (b \<noteq> [] \<and> \<not> sublist b r \<longrightarrow> display_name (b @ r) b = py_title (py_strip r))
   \<and> (py_strip s = [] \<or> (\<not> py_isspace (hd (py_strip s)) \<and> \<not> py_isspace (last (py_strip s))))"
proof -
  have a: "set (available_models mp b) = {m \<in> fst ` set (models mp). sublist b m}"
    by (auto simp: available_models_def py_in_sublist)
  have "sorted (available_models mp b)" by (simp add: available_models_def)
  then have c: "sorted_wrt (\<lambda>x y. x = y \<or> (x, y) \<in> lexord {(c, d). (of_char c :: nat) < of_char d})
        (available_models mp b)"
    by (simp add: string_le_lexord[abs_def])
  have d: "distinct (map fst (models mp)) \<longrightarrow> distinct (available_models mp b)"
    by (simp add: available_models_def)
  have e: "b \<noteq> [] \<and> \<not> sublist b r \<longrightarrow> display_name (b @ r) b = py_title (py_strip r)"
    by (simp add: display_name_def py_replace_prefix py_replace_absent)
  show ?thesis using a c d e py_strip_ends by (simp add: display_name_def)
qed

theorem available_models_search_witness:
  "available_models \<lparr>brands = [], models = [(''ford mondeo'', 1), (''bmw x5'', 2), (''ford focus'', 3)]\<rparr> ''ford''
     = [''ford focus'', ''ford mondeo'']
   \<and> display_name ''ford mondeo'' ''ford'' = ''Mondeo''
   \<and> ''ford'' \<noteq> [] \<and> \<not> sublist ''ford'' '' mondeo''
   \<and> display_name (''ford'' @ '' mondeo'') ''ford'' = py_title (py_strip '' mondeo'')"
proof -
  have 1: "available_models \<lparr>brands = [], models = [(''ford mondeo'', 1), (''bmw x5'', 2), (''ford focus'', 3)]\<rparr> ''ford''
     = [''ford focus'', ''ford mondeo'']"
    by code_simp
  have 2: "display_name ''ford mondeo'' ''ford'' = ''Mondeo''" by code_simp
  have 3: "\<not> sublist ''ford'' '' mondeo''" by code_simp
  show ?thesis
    using available_models_search [of _ "''ford''" _ "'' mondeo''"] 1 2 3 by simp
qed

subsection \<open>Encoding lookup\<close>

lemma manual_override_Inr:
  "manual_override enc p = Inr v \<longleftrightarrow> enc = Some v \<or> (enc = None \<and> p = Parsed v)"
  by (cases enc; cases p) (auto simp: manual_override_def required_def)

lemma manual_override_Inl:
  "enc = None \<Longrightarrow> \<forall>v. p \<noteq> Parsed v \<Longrightarrow> manual_override enc p = Inl ValueError"
  by (cases p) (auto simp: manual_override_def required_def)

lemma get_prediction_Inr:
  assumes "get_prediction np_expm1 m_tech m_brand mappings inp = Inr res"
  shows "\<exists>b m. out_brand_vector res = [b, m]
           \<and> manual_override (fst (cli_encoding mappings inp)) (in_manual_brand inp) = Inr b
           \<and> manual_override (snd (cli_encoding mappings inp)) (in_manual_model inp) = Inr m"
  using assms
  unfolding get_prediction_def cli_encoding_def cli_full_model_name_def cli_brand_key_def Let_def
  by (auto split: sum.splits prod.splits)

lemma get_prediction_Inl_brand:
  assumes "manual_override (fst (cli_encoding mappings inp)) (in_manual_brand inp) = Inl e"
  shows "\<exists>e'. get_prediction np_expm1 m_tech m_brand mappings inp = Inl e'"
  using assms
  unfolding get_prediction_def cli_encoding_def cli_full_model_name_def cli_brand_key_def Let_def
  by (auto split: sum.splits prod.splits)

lemma get_prediction_Inl_model:
  assumes "manual_override (snd (cli_encoding mappings inp)) (in_manual_model inp) = Inl e"
  shows "\<exists>e'. get_prediction np_expm1 m_tech m_brand mappings inp = Inl e'"
  using assms
  unfolding get_prediction_def cli_encoding_def cli_full_model_name_def cli_brand_key_def Let_def
  by (auto split: sum.splits prod.splits)

lemma cli_encoding_absent:
  "(mappings = None \<longrightarrow> cli_encoding mappings inp = (None, None))
   \<and> (mappings = Some mp \<and> cli_brand_key inp \<notin> fst ` set (brands mp)
        \<longrightarrow> fst (cli_encoding mappings inp) = None)
   \<and> (mappings = Some mp \<and> cli_full_model_name mappings inp \<notin> fst ` set (models mp)
        \<longrightarrow> snd (cli_encoding mappings inp) = None)"
  by (auto simp: cli_encoding_def encoding_lookup_def map_of_eq_None_iff)






subsection \<open>Decision table of the estimator\<close>

lemma estimate_kw_from_engine_range:
  "range (\<lambda>(e, f). estimate_kw_from_engine e f) = {75, 110, 140, 60, 92, 132, 184}"
proof -
  have a: "estimate_kw_from_engine 1 ''diesel'' = 75" "estimate_kw_from_engine 2 ''diesel'' = 110"
    "estimate_kw_from_engine 3 ''diesel'' = 140" "estimate_kw_from_engine 1 [] = 60"
    "estimate_kw_from_engine 1.5 [] = 92" "estimate_kw_from_engine 2 [] = 132"
    "estimate_kw_from_engine 3 [] = 184"
    unfolding estimate_kw_from_engine_def float_lit_1_5 float_lit_2_0 float_lit_1_2 float_lit_1_6
    by code_simp+
  have "\<And>v. v \<in> {75, 110, 140, 60, 92, 132, 184} \<Longrightarrow> v \<in> range (\<lambda>(e, f). estimate_kw_from_engine e f)"
    using a by (auto simp: image_iff) metis+
  moreover have "\<And>e f. estimate_kw_from_engine e f \<in> {75, 110, 140, 60, 92, 132, 184}"
    unfolding estimate_kw_from_engine_def by simp
  ultimately show ?thesis by auto
qed

text \<open>
  C2. The estimator is a function of the displacement and the fuel string whose values are
  exactly the seven numbers 75, 110, 140, 60, 92, 132, 184. Diesel is chosen when the
  lower-cased fuel string contains \<open>diesel\<close> as a substring, and each row of the table holds
  with the boundary displacement in the lower bucket. The boundaries 1.5 and 2.0 are
  binary64 numbers; 1.2 and 1.6 are the binary64 values of the literals.
\<close>

theorem estimate_kw_from_engine_table:
  "range (\<lambda>(e, f). estimate_kw_from_engine e f) = {75, 110, 140, 60, 92, 132, 184}
   \<and> (sublist ''diesel'' (py_lower f) \<and> e \<le> 1.5 \<longrightarrow> estimate_kw_from_engine e f = 75)
   \<and> (sublist ''diesel'' (py_lower f) \<and> 1.5 < e \<and> e \<le> 2.0 \<longrightarrow> estimate_kw_from_engine e f = 110)
   \<and> (sublist ''diesel'' (py_lower f) \<and> 2.0 < e \<longrightarrow> estimate_kw_from_engine e f = 140)
   \<and> (\<not> sublist ''diesel'' (py_lower f) \<and> e \<le> float_lit 12 10 \<longrightarrow> estimate_kw_from_engine e f = 60)
   \<and> (\<not> sublist ''diesel'' (py_lower f) \<and> float_lit 12 10 < e \<and> e \<le> float_lit 16 10
        \<longrightarrow> estimate_kw_from_engine e f = 92)
   \<and> (\<not> sublist ''diesel'' (py_lower f) \<and> float_lit 16 10 < e \<and> e \<le> 2.0
        \<longrightarrow> estimate_kw_from_engine e f = 132)
   \<and> (\<not> sublist ''diesel'' (py_lower f) \<and> 2.0 < e \<longrightarrow> estimate_kw_from_engine e f = 184)"
proof -
  have "(sublist ''diesel'' (py_lower f) \<and> e \<le> 1.5 \<longrightarrow> estimate_kw_from_engine e f = 75)
   \<and> (sublist ''diesel'' (py_lower f) \<and> 1.5 < e \<and> e \<le> 2.0 \<longrightarrow> estimate_kw_from_engine e f = 110)
   \<and> (sublist ''diesel'' (py_lower f) \<and> 2.0 < e \<longrightarrow> estimate_kw_from_engine e f = 140)
   \<and> (\<not> sublist ''diesel'' (py_lower f) \<and> e \<le> float_lit 12 10 \<longrightarrow> estimate_kw_from_engine e f = 60)
   \<and> (\<not> sublist ''diesel'' (py_lower f) \<and> float_lit 12 10 < e \<and> e \<le> float_lit 16 10
        \<longrightarrow> estimate_kw_from_engine e f = 92)
   \<and> (\<not> sublist ''diesel'' (py_lower f) \<and> float_lit 16 10 < e \<and> e \<le> 2.0
        \<longrightarrow> estimate_kw_from_engine e f = 132)
   \<and> (\<not> sublist ''diesel'' (py_lower f) \<and> 2.0 < e \<longrightarrow> estimate_kw_from_engine e f = 184)"
    unfolding estimate_kw_from_engine_def py_in_sublist float_lit_1_5 float_lit_2_0
      float_lit_1_2 float_lit_1_6
    by auto
  then show ?thesis using estimate_kw_from_engine_range by blast
qed

theorem estimate_kw_from_engine_table_witness:
  "estimate_kw_from_engine 1.5 ''Diesel'' = 75
   \<and> estimate_kw_from_engine 2.0 ''diesel'' = 110
   \<and> estimate_kw_from_engine 3 ''TURBODIESEL 3.0'' = 140
   \<and> estimate_kw_from_engine (float_lit 12 10) ''petrol'' = 60
   \<and> estimate_kw_from_engine (float_lit 16 10) ''hybrid'' = 92
   \<and> estimate_kw_from_engine 2.0 ''lpg'' = 132
   \<and> estimate_kw_from_engine 2.5 ''electric'' = 184"
proof -
  have d: "sublist ''diesel'' (py_lower ''Diesel'')" "sublist ''diesel'' (py_lower ''diesel'')"
    "sublist ''diesel'' (py_lower ''TURBODIESEL 3.0'')" by code_simp+
  have n: "\<not> sublist ''diesel'' (py_lower ''petrol'')" "\<not> sublist ''diesel'' (py_lower ''hybrid'')"
    "\<not> sublist ''diesel'' (py_lower ''lpg'')" "\<not> sublist ''diesel'' (py_lower ''electric'')"
    by code_simp+
  have lt: "float_lit 12 10 < float_lit 16 10" "float_lit 16 10 < 2.0"
    unfolding float_lit_1_2 float_lit_1_6 by simp_all
  show ?thesis
    using estimate_kw_from_engine_table [where e = "1.5" and f = "''Diesel''"]
      estimate_kw_from_engine_table [where e = "2.0" and f = "''diesel''"]
      estimate_kw_from_engine_table [where e = 3 and f = "''TURBODIESEL 3.0''"]
      estimate_kw_from_engine_table [where e = "float_lit 12 10" and f = "''petrol''"]
      estimate_kw_from_engine_table [where e = "float_lit 16 10" and f = "''hybrid''"]
      estimate_kw_from_engine_table [where e = "2.0" and f = "''lpg''"]
      estimate_kw_from_engine_table [where e = "2.5" and f = "''electric''"]
      d n lt
    by simp
qed

subsection \<open>The two copies of the estimator\<close>

text \<open>
  C10. The estimator of the console program and the estimator of the web form return the
  same kW for every engine displacement and every fuel string.
\<close>

theorem estimate_kw_from_engine_app_eq:
  "app_estimate_kw_from_engine engine_size fuel_type = estimate_kw_from_engine engine_size fuel_type"
  by (simp add: app_estimate_kw_from_engine_def estimate_kw_from_engine_def)

end
